theory Spec2Isabelle
  imports Main "HOL-Library.AList"
begin

section \<open>Strings and characters\<close>

text \<open>
  A JavaScript string is a sequence of UTF-16 code units, each a number from \<open>0\<close> to
  \<open>2^16 - 1\<close>. The parser never computes with a unit, it only compares units and
  copies them, so a unit is an integer here and no arithmetic is involved. String
  literals of the code are written through \<open>str\<close>, which maps every character of the
  literal to its code unit.
\<close>

type_synonym codeUnit = int

type_synonym jsstring = "codeUnit list"

definition str :: "string \<Rightarrow> jsstring" where
  "str s = map of_char s"

text \<open>
  The loop \<open>for (const char of chunk)\<close> runs the string iterator, which yields one
  string per code point: a high surrogate followed by a low surrogate is yielded together,
  as a string of two units, and every other unit alone (a surrogate without its partner
  included).
\<close>

datatype character = Single codeUnit | Pair codeUnit codeUnit

fun units :: "character \<Rightarrow> jsstring" where
  "units (Single u) = [u]"
| "units (Pair h l) = [h, l]"

definition isHighSurrogate :: "codeUnit \<Rightarrow> bool" where
  "isHighSurrogate u = (0xD800 \<le> u \<and> u \<le> 0xDBFF)"

definition isLowSurrogate :: "codeUnit \<Rightarrow> bool" where
  "isLowSurrogate u = (0xDC00 \<le> u \<and> u \<le> 0xDFFF)"

fun codePoints :: "jsstring \<Rightarrow> character list" where
  "codePoints [] = []"
| "codePoints [u] = [Single u]"
| "codePoints (u # v # us) =
     (if isHighSurrogate u \<and> isLowSurrogate v
      then Pair u v # codePoints us
      else Single u # codePoints (v # us))"

text \<open>The one-unit character of a literal such as \<open>"<"\<close>.\<close>

definition ascii :: "char \<Rightarrow> character" where
  "ascii a = Single (of_char a)"

text \<open>
  The class \<open>\s\<close> of a regular expression and the characters that
  \<open>String.prototype.trim\<close> strips are the same set: tab, line feed, vertical tab, form
  feed, carriage return, space, no-break space, the other space separators
  (\<open>U+1680\<close>, \<open>U+2000\<close> to \<open>U+200A\<close>, \<open>U+202F\<close>, \<open>U+205F\<close>, \<open>U+3000\<close>),
  the line and paragraph separators and the byte-order mark.
\<close>

definition isWhitespace :: "codeUnit \<Rightarrow> bool" where
  "isWhitespace u =
     (u = 0x09 \<or> u = 0x0A \<or> u = 0x0B \<or> u = 0x0C \<or> u = 0x0D \<or> u = 0x20 \<or> u = 0xA0
      \<or> u = 0x1680 \<or> (0x2000 \<le> u \<and> u \<le> 0x200A) \<or> u = 0x2028 \<or> u = 0x2029
      \<or> u = 0x202F \<or> u = 0x205F \<or> u = 0x3000 \<or> u = 0xFEFF)"

text \<open>\<open>/\s/.test(char)\<close>: some unit of the character is whitespace.\<close>

definition whitespaceTest :: "character \<Rightarrow> bool" where
  "whitespaceTest c = list_ex isWhitespace (units c)"

section \<open>Data model of the streaming tool parser\<close>

text \<open>
  The construction options. A JavaScript \<open>Set\<close> is given by its elements in insertion
  order, the \<open>Map\<close> from tool names to parameter-name sets by its entries; the optional
  flag \<open>relaxedMode?: boolean\<close> is an optional boolean.
\<close>

record StreamingToolParserOptions =
  validToolNames :: "jsstring list"
  validParamNamesByTool :: "(jsstring \<times> jsstring list) list"
  optRelaxedMode :: "bool option"

text \<open>
  The schema tree built by the constructor has depth three: the synthetic root, one node
  per tool name, and below each tool one node per parameter name. A node object is
  identified by the names on its path, and the code compares nodes by identity
  (\<open>currentNode === rootNode\<close>, \<open>matchedSchema.parent === rootNode\<close>).
\<close>

datatype NodeSchema = Root | Tool jsstring | Param jsstring jsstring

fun node_name :: "NodeSchema \<Rightarrow> jsstring" where
  "node_name Root = str ''root''"
| "node_name (Tool t) = t"
| "node_name (Param t p) = p"

fun allowedTextContent :: "NodeSchema \<Rightarrow> bool" where
  "allowedTextContent Root = True"
| "allowedTextContent (Tool t) = False"
| "allowedTextContent (Param t p) = True"

fun parent :: "NodeSchema \<Rightarrow> NodeSchema option" where
  "parent Root = None"
| "parent (Tool t) = Some Root"
| "parent (Param t p) = Some (Tool t)"

text \<open>
  \<open>buildSchemaFromValidTools\<close>: the children of the root are the tool nodes; the children
  of a tool are its parameter nodes when the map has an entry for the tool and the empty
  array otherwise; a parameter node has no \<open>children\<close> field.
\<close>

fun children :: "StreamingToolParserOptions \<Rightarrow> NodeSchema \<Rightarrow> NodeSchema list option" where
  "children opts Root = Some (map Tool (validToolNames opts))"
| "children opts (Tool t) =
     Some (case map_of (validParamNamesByTool opts) t of
             Some ps \<Rightarrow> map (Param t) ps
           | None \<Rightarrow> [])"
| "children opts (Param t p) = None"

datatype ParseStateEnum = Text | TagOpening | TagName | TextContent | ClosingTag

record ToolUse =
  name :: jsstring
  params :: "(jsstring \<times> jsstring) list"
  partial :: bool

text \<open>
  A published block. The type parameter is the representation of a tool-use: \<open>ToolUse\<close>
  above, with its parameter map as a value, or the same object with the map held by
  reference (last section).
\<close>

datatype 'tu AssistantMessageContent =
    TextBlock (content: jsstring) (text_partial: bool)
  | ToolUseBlock 'tu

text \<open>The two kinds of event the parser publishes, in the order of publication.\<close>

datatype 'tu event = Block "'tu AssistantMessageContent" | Error jsstring

record 'tu ParserContext =
  textBuffer :: jsstring
  tagBuffer :: jsstring
  paramValueBuffer :: jsstring
  closingTagBuffer :: jsstring
  currentNode :: NodeSchema
  currentToolUse :: "'tu option"
  currentParamName :: "jsstring option"
  options :: StreamingToolParserOptions

text \<open>The read-only field \<open>relaxedMode = !!options.relaxedMode\<close>.\<close>

definition relaxedMode :: "'tu ParserContext \<Rightarrow> bool" where
  "relaxedMode ctx = (optRelaxedMode (options ctx) = Some True)"

text \<open>The context as the constructor leaves it.\<close>

definition newParserContext :: "StreamingToolParserOptions \<Rightarrow> 'tu ParserContext" where
  "newParserContext opts =
     \<lparr> textBuffer = [], tagBuffer = [], paramValueBuffer = [], closingTagBuffer = [],
       currentNode = Root, currentToolUse = None, currentParamName = None,
       options = opts \<rparr>"

section \<open>String helpers\<close>

definition trim :: "jsstring \<Rightarrow> jsstring" where
  "trim s = rev (dropWhile isWhitespace (rev (dropWhile isWhitespace s)))"

definition startsWith :: "jsstring \<Rightarrow> jsstring \<Rightarrow> bool" where
  "startsWith s p = (take (length p) s = p)"

text \<open>A string or an optional name used as a condition: absent and empty are falsy.\<close>

fun truthy :: "jsstring option \<Rightarrow> bool" where
  "truthy None = False"
| "truthy (Some s) = (s \<noteq> [])"

section \<open>Helper methods of the context\<close>

definition findChildSchema :: "'tu ParserContext \<Rightarrow> jsstring \<Rightarrow> NodeSchema option" where
  "findChildSchema ctx tagName =
     (case children (options ctx) (currentNode ctx) of
        None \<Rightarrow> None
      | Some cs \<Rightarrow> List.find (\<lambda>child. node_name child = tagName) cs)"

definition hasChildSchemaWithPrefix :: "'tu ParserContext \<Rightarrow> jsstring \<Rightarrow> bool" where
  "hasChildSchemaWithPrefix ctx pre =
     (case children (options ctx) (currentNode ctx) of
        None \<Rightarrow> False
      | Some cs \<Rightarrow> list_ex (\<lambda>child. startsWith (node_name child) pre) cs)"

definition canContainText :: "'tu ParserContext \<Rightarrow> bool" where
  "canContainText ctx = allowedTextContent (currentNode ctx)"

definition resetParamState :: "'tu ParserContext \<Rightarrow> 'tu ParserContext" where
  "resetParamState ctx = ctx\<lparr>currentParamName := None, paramValueBuffer := []\<rparr>"

definition resetToolState :: "'tu ParserContext \<Rightarrow> 'tu ParserContext" where
  "resetToolState ctx =
     (resetParamState (ctx\<lparr>currentToolUse := None\<rparr>))\<lparr>tagBuffer := [], closingTagBuffer := []\<rparr>"

text \<open>
  \<open>storeCurrentParamValue\<close>: \<open>params[currentParamName] = paramValueBuffer\<close> replaces the
  value of an existing key in place and appends a new key. The \<open>params\<close> field of a
  tool-use is always an object, so the guard \<open>!currentToolUse.params\<close> never fires.
\<close>

definition storeCurrentParamValue :: "ToolUse ParserContext \<Rightarrow> ToolUse ParserContext" where
  "storeCurrentParamValue ctx =
     (case currentToolUse ctx of
        None \<Rightarrow> ctx
      | Some tu \<Rightarrow>
          (case currentParamName ctx of
             None \<Rightarrow> ctx
           | Some pn \<Rightarrow>
               if pn \<noteq> []
               then ctx\<lparr>currentToolUse :=
                      Some (tu\<lparr>params := AList.update pn (paramValueBuffer ctx) (params tu)\<rparr>)\<rparr>
               else ctx))"

section \<open>The five states\<close>

text \<open>
  Every \<open>processChar\<close> returns the events it published, the next state and the context
  as it left it.
\<close>

type_synonym 'tu step = "'tu event list \<times> ParseStateEnum \<times> 'tu ParserContext"

definition quote :: jsstring where
  "quote = [0x22]"

definition apostrophe :: jsstring where
  "apostrophe = [0x27]"

definition TextState_processChar :: "'tu ParserContext \<Rightarrow> character \<Rightarrow> 'tu step" where
  "TextState_processChar ctx c =
     (if c = ascii CHR ''<'' then
        (let normalizedText = trim (textBuffer ctx) in
         if textBuffer ctx \<noteq> [] \<and> normalizedText \<noteq> []
         then ([Block (TextBlock normalizedText False)], TagOpening,
               ctx\<lparr>textBuffer := [], tagBuffer := []\<rparr>)
         else ([], TagOpening, ctx\<lparr>tagBuffer := []\<rparr>))
      else if \<not> allowedTextContent (currentNode ctx) then
        (if \<not> whitespaceTest c
         then ([Error (str ''Unexpected character '' @ quote @ units c @ quote
                        @ str '' outside of allowed text content'')],
               Text, ctx\<lparr>textBuffer := textBuffer ctx @ units c\<rparr>)
         else ([], Text, ctx))
      else ([], Text, ctx\<lparr>textBuffer := textBuffer ctx @ units c\<rparr>))"

definition TagOpeningState_processChar :: "'tu ParserContext \<Rightarrow> character \<Rightarrow> 'tu step" where
  "TagOpeningState_processChar ctx c =
     (if c = ascii CHR ''/'' then
        (if parent (currentNode ctx) \<noteq> None
         then ([], ClosingTag, ctx\<lparr>closingTagBuffer := []\<rparr>)
         else if relaxedMode ctx
         then ([], Text, ctx\<lparr>textBuffer := textBuffer ctx @ str ''</''\<rparr>)
         else ([Error (str ''Closing tag without matching opening tag'')], Text,
               ctx\<lparr>textBuffer := textBuffer ctx @ str ''</''\<rparr>))
      else if whitespaceTest c then
        (if relaxedMode ctx
         then ([], Text, ctx\<lparr>textBuffer := textBuffer ctx @ str ''<'' @ units c\<rparr>)
         else ([Error (str ''Unexpected whitespace after '' @ apostrophe @ str ''<'' @ apostrophe)], Text,
               ctx\<lparr>textBuffer := textBuffer ctx @ str ''<'' @ units c\<rparr>))
      else ([], TagName, ctx\<lparr>tagBuffer := units c\<rparr>))"

definition handleValidTag :: "ToolUse ParserContext \<Rightarrow> NodeSchema \<Rightarrow> ToolUse step" where
  "handleValidTag ctx0 matchedSchema =
     (let ctx = ctx0\<lparr>currentNode := matchedSchema\<rparr> in
      if parent matchedSchema = Some Root then
        ([], TextContent,
         ctx\<lparr>currentToolUse := Some \<lparr>name = node_name matchedSchema, params = [], partial = True\<rparr>,
             tagBuffer := []\<rparr>)
      else if parent matchedSchema \<noteq> None \<and> parent matchedSchema \<noteq> Some Root then
        ([], TextContent,
         ctx\<lparr>currentParamName := Some (node_name matchedSchema),
             paramValueBuffer := [], tagBuffer := []\<rparr>)
      else ([Error (str ''Unexpected tag structure for '' @ node_name matchedSchema)], Text, ctx))"

text \<open>The literal \<open><\<close> + tag buffer + character that an invalid tag leaves behind.\<close>

definition invalidTagText :: "'tu ParserContext \<Rightarrow> character \<Rightarrow> jsstring" where
  "invalidTagText ctx c = str ''<'' @ tagBuffer ctx @ units c"

definition handleInvalidTag_fallback :: "'tu ParserContext \<Rightarrow> character \<Rightarrow> 'tu step" where
  "handleInvalidTag_fallback ctx c =
     ([], Text,
      resetToolState (ctx\<lparr>textBuffer := textBuffer ctx @ invalidTagText ctx c,
                         tagBuffer := [], currentNode := Root\<rparr>))"

definition handleInvalidTag :: "'tu ParserContext \<Rightarrow> character \<Rightarrow> 'tu step" where
  "handleInvalidTag ctx c =
     (let isAtRootLevel = (currentNode ctx = Root) in
      if relaxedMode ctx then
        (if isAtRootLevel
         then ([], Text,
               ctx\<lparr>textBuffer := textBuffer ctx @ invalidTagText ctx c, tagBuffer := []\<rparr>)
         else if canContainText ctx
         then ([], TextContent,
               ctx\<lparr>paramValueBuffer := paramValueBuffer ctx @ invalidTagText ctx c,
                   tagBuffer := []\<rparr>)
         else handleInvalidTag_fallback ctx c)
      else
        (if isAtRootLevel
         then ([Error (str ''Invalid tool name: '' @ tagBuffer ctx)], Text,
               ctx\<lparr>textBuffer := textBuffer ctx @ invalidTagText ctx c, tagBuffer := []\<rparr>)
         else if parent (currentNode ctx) = Some Root
         then ([Error (str ''Invalid param name: '' @ tagBuffer ctx @ str '' for tool ''
                        @ node_name (currentNode ctx))], TextContent,
               ctx\<lparr>paramValueBuffer := paramValueBuffer ctx @ invalidTagText ctx c,
                   tagBuffer := []\<rparr>)
         else if canContainText ctx
         then ([Error (str ''Invalid tag name: '' @ tagBuffer ctx @ str '' in ''
                        @ node_name (currentNode ctx))], TextContent,
               ctx\<lparr>paramValueBuffer := paramValueBuffer ctx @ invalidTagText ctx c,
                   tagBuffer := []\<rparr>)
         else handleInvalidTag_fallback ctx c))"

definition prepend_events :: "'tu event list \<Rightarrow> 'tu step \<Rightarrow> 'tu step" where
  "prepend_events evs r = (case r of (evs', st, ctx) \<Rightarrow> (evs @ evs', st, ctx))"

definition TagNameState_processChar :: "ToolUse ParserContext \<Rightarrow> character \<Rightarrow> ToolUse step" where
  "TagNameState_processChar ctx0 c =
     (if c \<noteq> ascii CHR ''>'' \<and> \<not> whitespaceTest c then
        (let ctx = ctx0\<lparr>tagBuffer := tagBuffer ctx0 @ units c\<rparr> in
         if \<not> hasChildSchemaWithPrefix ctx (tagBuffer ctx)
         then handleInvalidTag ctx c
         else ([], TagName, ctx))
      else
        (case findChildSchema ctx0 (tagBuffer ctx0) of
           Some exactMatch \<Rightarrow>
             if c = ascii CHR ''>'' then handleValidTag ctx0 exactMatch
             else prepend_events [Error (str ''Unexpected whitespace in parameter tag'')]
                    (handleInvalidTag ctx0 c)
         | None \<Rightarrow> handleInvalidTag ctx0 c))"

definition TextContentState_processChar :: "'tu ParserContext \<Rightarrow> character \<Rightarrow> 'tu step" where
  "TextContentState_processChar ctx c =
     (if c = ascii CHR ''<'' then ([], TagOpening, ctx\<lparr>tagBuffer := []\<rparr>)
      else if truthy (currentParamName ctx)
      then ([], TextContent, ctx\<lparr>paramValueBuffer := paramValueBuffer ctx @ units c\<rparr>)
      else if canContainText ctx
      then ([], TextContent, ctx\<lparr>textBuffer := textBuffer ctx @ units c\<rparr>)
      else if whitespaceTest c
      then ([], TextContent, ctx)
      else ([Error (str ''Unexpected character '' @ quote @ units c @ quote @ str '' in ''
                     @ node_name (currentNode ctx) @ str '' context'')],
            TextContent, ctx\<lparr>textBuffer := textBuffer ctx @ units c\<rparr>))"

definition handleMismatchedClosingTag :: "'tu ParserContext \<Rightarrow> 'tu step" where
  "handleMismatchedClosingTag ctx =
     (let tagName = closingTagBuffer ctx in
      if relaxedMode ctx \<and> canContainText ctx then
        (if truthy (currentParamName ctx)
         then ([], TextContent,
               ctx\<lparr>paramValueBuffer := paramValueBuffer ctx @ str ''</'' @ tagName,
                   closingTagBuffer := []\<rparr>)
         else ([], Text,
               ctx\<lparr>textBuffer := textBuffer ctx @ str ''</'' @ tagName, closingTagBuffer := []\<rparr>))
      else
        (let err = Error (str ''Mismatched closing tag: expected </'' @ node_name (currentNode ctx)
                          @ str ''> but got </'' @ tagName) in
         if canContainText ctx then
           (if truthy (currentParamName ctx)
            then ([err], TextContent,
                  ctx\<lparr>paramValueBuffer := paramValueBuffer ctx @ str ''</'' @ tagName,
                      closingTagBuffer := []\<rparr>)
            else ([err], Text,
                  ctx\<lparr>textBuffer := textBuffer ctx @ str ''</'' @ tagName,
                      closingTagBuffer := []\<rparr>))
         else
           ([err], Text,
            resetToolState (ctx\<lparr>textBuffer := textBuffer ctx @ str ''</'' @ tagName,
                               closingTagBuffer := [], currentNode := Root\<rparr>))))"

text \<open>
  The second half of \<open>processClosingTag\<close>: the name at the closing fence is not the
  name of the current node.
\<close>

definition processClosingTag_mismatch :: "'tu ParserContext \<Rightarrow> 'tu step" where
  "processClosingTag_mismatch ctx =
     (let tagName = closingTagBuffer ctx in
      if relaxedMode ctx \<and> canContainText ctx then
        (if truthy (currentParamName ctx)
         then ([], TextContent,
               ctx\<lparr>paramValueBuffer := paramValueBuffer ctx @ str ''</'' @ tagName @ str ''>''\<rparr>)
         else ([], Text, ctx\<lparr>textBuffer := textBuffer ctx @ str ''</'' @ tagName @ str ''>''\<rparr>))
      else
        (let err = Error (str ''Mismatched closing tag: expected </'' @ node_name (currentNode ctx)
                          @ str ''> but got </'' @ tagName @ str ''>'') in
         if canContainText ctx then
           (if truthy (currentParamName ctx)
            then ([err], TextContent,
                  ctx\<lparr>paramValueBuffer := paramValueBuffer ctx @ str ''</'' @ tagName @ str ''>''\<rparr>)
            else ([err], Text,
                  ctx\<lparr>textBuffer := textBuffer ctx @ str ''</'' @ tagName @ str ''>''\<rparr>))
         else
           ([err], Text,
            resetToolState (ctx\<lparr>textBuffer := textBuffer ctx @ str ''</'' @ tagName @ str ''>'',
                               currentNode := Root\<rparr>))))"

text \<open>
  \<open>processClosingTag\<close>. On a matching name the code moves up with
  \<open>currentNode = currentNode.parent!\<close>. The root has no parent: there the assignment
  would leave \<open>undefined\<close> in \<open>currentNode\<close> and the next character would raise a
  \<open>TypeError\<close>; the model reports that failure at once, as \<open>None\<close>. The published
  block \<open>{ ...currentToolUse, partial: false }\<close> is a new object around the same
  parameter map.
\<close>

definition processClosingTag :: "ToolUse ParserContext \<Rightarrow> ToolUse step option" where
  "processClosingTag ctx =
     (let tagName = closingTagBuffer ctx in
      if node_name (currentNode ctx) = tagName then
        (let (evs, ctx1) =
           (if currentParamName ctx = Some tagName
            then ([], resetParamState (storeCurrentParamValue ctx))
            else (case currentToolUse ctx of
                    Some tu \<Rightarrow>
                      if name tu = tagName
                      then ([Block (ToolUseBlock (tu\<lparr>partial := False\<rparr>))], resetToolState ctx)
                      else ([], ctx)
                  | None \<Rightarrow> ([], ctx)))
         in (case parent (currentNode ctx1) of
               None \<Rightarrow> None
             | Some up \<Rightarrow>
                 Some (evs, if up = Root then Text else TextContent,
                       ctx1\<lparr>currentNode := up, closingTagBuffer := []\<rparr>)))
      else Some (processClosingTag_mismatch ctx))"

definition ClosingTagState_processChar :: "ToolUse ParserContext \<Rightarrow> character \<Rightarrow> ToolUse step option" where
  "ClosingTagState_processChar ctx0 c =
     (if c = ascii CHR ''>'' then processClosingTag ctx0
      else
        (let ctx = ctx0\<lparr>closingTagBuffer := closingTagBuffer ctx0 @ units c\<rparr>;
             currentNodeName = node_name (currentNode ctx);
             bufferPrefix = take (length (closingTagBuffer ctx)) currentNodeName
         in if bufferPrefix \<noteq> closingTagBuffer ctx
            then Some (handleMismatchedClosingTag ctx)
            else Some ([], ClosingTag, ctx)))"

section \<open>The driver\<close>

record 'tu StreamingToolParser =
  parserContext :: "'tu ParserContext"
  currentState :: ParseStateEnum

definition newStreamingToolParser :: "StreamingToolParserOptions \<Rightarrow> 'tu StreamingToolParser" where
  "newStreamingToolParser opts = \<lparr> parserContext = newParserContext opts, currentState = Text \<rparr>"

text \<open>\<open>this.currentState.processChar(this.context, char)\<close>: dispatch on the state object.\<close>

fun processChar :: "ParseStateEnum \<Rightarrow> ToolUse ParserContext \<Rightarrow> character \<Rightarrow> ToolUse step option" where
  "processChar Text ctx c = Some (TextState_processChar ctx c)"
| "processChar TagOpening ctx c = Some (TagOpeningState_processChar ctx c)"
| "processChar TagName ctx c = Some (TagNameState_processChar ctx c)"
| "processChar TextContent ctx c = Some (TextContentState_processChar ctx c)"
| "processChar ClosingTag ctx c = ClosingTagState_processChar ctx c"

text \<open>
  The body of the loop \<open>for (const char of chunk)\<close> on the characters the iterator
  yields, with the events it publishes.
\<close>

fun processChars :: "ToolUse StreamingToolParser \<Rightarrow> character list \<Rightarrow> (ToolUse event list \<times> ToolUse StreamingToolParser) option" where
  "processChars p [] = Some ([], p)"
| "processChars p (c # cs) =
     (case processChar (currentState p) (parserContext p) c of
        None \<Rightarrow> None
      | Some (evs, st, ctx) \<Rightarrow>
          (case processChars \<lparr>parserContext = ctx, currentState = st\<rparr> cs of
             None \<Rightarrow> None
           | Some (evs', p') \<Rightarrow> Some (evs @ evs', p')))"

definition emitPartialAtChunkEnd :: "ToolUse StreamingToolParser \<Rightarrow> ToolUse event list \<times> ToolUse StreamingToolParser" where
  "emitPartialAtChunkEnd p =
     (let currentStateType = currentState p; ctx = parserContext p in
      if currentStateType = Text \<and> textBuffer ctx \<noteq> [] then
        (let normalizedText = trim (textBuffer ctx) in
         if normalizedText \<noteq> [] then ([Block (TextBlock normalizedText True)], p) else ([], p))
      else
        (case currentToolUse ctx of
           None \<Rightarrow> ([], p)
         | Some _ \<Rightarrow>
             (let ctx1 = (if currentStateType = TextContent \<and> currentNode ctx \<noteq> Root
                          then storeCurrentParamValue ctx else ctx)
              in (case currentToolUse ctx1 of
                    None \<Rightarrow> ([], p\<lparr>parserContext := ctx1\<rparr>)
                  | Some tu \<Rightarrow>
                      ([Block (ToolUseBlock \<lparr>name = name tu, params = params tu, partial = True\<rparr>)],
                       p\<lparr>parserContext := ctx1\<rparr>)))))"

definition processChunk :: "ToolUse StreamingToolParser \<Rightarrow> jsstring \<Rightarrow> (ToolUse event list \<times> ToolUse StreamingToolParser) option" where
  "processChunk p chunk =
     (case processChars p (codePoints chunk) of
        None \<Rightarrow> None
      | Some (evs, p1) \<Rightarrow>
          (case emitPartialAtChunkEnd p1 of (evs', p2) \<Rightarrow> Some (evs @ evs', p2)))"

definition finalize :: "'tu StreamingToolParser \<Rightarrow> 'tu event list \<times> 'tu StreamingToolParser" where
  "finalize p =
     (let finalStateType = currentState p; ctx = parserContext p;
          normalizedText = trim (textBuffer ctx);
          evs = (if finalStateType = Text \<and> textBuffer ctx \<noteq> [] \<and> normalizedText \<noteq> []
                 then [Block (TextBlock normalizedText False)] else [])
      in (evs,
          \<lparr> parserContext = (resetToolState ctx)\<lparr>textBuffer := [], currentNode := Root\<rparr>,
            currentState = Text \<rparr>))"

text \<open>A whole session: the chunks in order, each through \<open>processChunk\<close>.\<close>

fun processChunks :: "ToolUse StreamingToolParser \<Rightarrow> jsstring list \<Rightarrow> (ToolUse event list \<times> ToolUse StreamingToolParser) option" where
  "processChunks p [] = Some ([], p)"
| "processChunks p (chunk # chunks) =
     (case processChunk p chunk of
        None \<Rightarrow> None
      | Some (evs, p1) \<Rightarrow>
          (case processChunks p1 chunks of
             None \<Rightarrow> None
           | Some (evs', p2) \<Rightarrow> Some (evs @ evs', p2)))"

section \<open>Notions used by the properties\<close>

text \<open>The schema of the end-to-end scenarios: one tool with three parameters, strict mode.\<close>

definition readFileOptions :: StreamingToolParserOptions where
  "readFileOptions =
     \<lparr> validToolNames = [str ''read_file''],
       validParamNamesByTool = [(str ''read_file'', [str ''path'', str ''start_line'', str ''end_line''])],
       optRelaxedMode = None \<rparr>"


fun isToolUseEvent :: "'tu event \<Rightarrow> bool" where
  "isToolUseEvent (Block (ToolUseBlock tu)) = True"
| "isToolUseEvent _ = False"

fun isErrorEvent :: "'tu event \<Rightarrow> bool" where
  "isErrorEvent (Error m) = True"
| "isErrorEvent _ = False"

text \<open>
  The shape of the context that every run from a fresh parser keeps: a tool-use is being
  assembled exactly below the root and carries the name of the tool node, a parameter
  name is set exactly on a parameter node and is that node's name, the parameter buffer
  is empty at the root, the tag-name state has read at least one character, and the
  closing-tag state is only entered below the root.
\<close>

definition consistent :: "ParseStateEnum \<Rightarrow> ToolUse ParserContext \<Rightarrow> bool" where
  "consistent st ctx =
     ((st = TagName \<longrightarrow> tagBuffer ctx \<noteq> []) \<and>
      (st = ClosingTag \<longrightarrow> currentNode ctx \<noteq> Root) \<and>
      (case currentNode ctx of
         Root \<Rightarrow> currentToolUse ctx = None \<and> currentParamName ctx = None
                  \<and> paramValueBuffer ctx = []
       | Tool t \<Rightarrow> currentParamName ctx = None
                  \<and> (\<exists>tu. currentToolUse ctx = Some tu \<and> name tu = t)
       | Param t pn \<Rightarrow> pn \<noteq> [] \<and> currentParamName ctx = Some pn
                  \<and> (\<exists>tu. currentToolUse ctx = Some tu \<and> name tu = t)))"

definition consistentParser :: "ToolUse StreamingToolParser \<Rightarrow> bool" where
  "consistentParser p = consistent (currentState p) (parserContext p)"

text \<open>
  A whole session on a parser: the chunks through \<open>processChunk\<close>, then \<open>finalize\<close>;
  the result is every event published, in order.
\<close>

definition session :: "ToolUse StreamingToolParser \<Rightarrow> jsstring list \<Rightarrow> ToolUse event list option" where
  "session p chunks =
     (case processChunks p chunks of
        None \<Rightarrow> None
      | Some (evs, p') \<Rightarrow> Some (evs @ fst (finalize p')))"

text \<open>A text block is well formed when its content is not empty and is its own trim.\<close>

fun trimmedText :: "'tu event \<Rightarrow> bool" where
  "trimmedText (Block (TextBlock s b)) = (s \<noteq> [] \<and> trim s = s)"
| "trimmedText _ = True"

text \<open>The events published by, and the parser left after, chunks fed to a fresh parser.\<close>

definition eventsOf :: "StreamingToolParserOptions \<Rightarrow> jsstring list \<Rightarrow> ToolUse event list option" where
  "eventsOf opts chunks = map_option fst (processChunks (newStreamingToolParser opts) chunks)"

definition parserAfter :: "StreamingToolParserOptions \<Rightarrow> jsstring list \<Rightarrow> ToolUse StreamingToolParser option" where
  "parserAfter opts chunks = map_option snd (processChunks (newStreamingToolParser opts) chunks)"

definition relaxedReadFileOptions :: StreamingToolParserOptions where
  "relaxedReadFileOptions = readFileOptions\<lparr>optRelaxedMode := Some True\<rparr>"

text \<open>
  The characters a step gives up on when it reports an error: the character itself in
  the two text states, and the text of the pending tag, from its opening fence up to and
  including the character, in the three tag states.
\<close>

fun offending :: "ParseStateEnum \<Rightarrow> 'tu ParserContext \<Rightarrow> character \<Rightarrow> jsstring" where
  "offending Text ctx c = units c"
| "offending TagOpening ctx c = str ''<'' @ units c"
| "offending TagName ctx c = str ''<'' @ tagBuffer ctx @ units c"
| "offending TextContent ctx c = units c"
| "offending ClosingTag ctx c = str ''</'' @ closingTagBuffer ctx @ units c"

fun isInvalidParamError :: "'tu event \<Rightarrow> bool" where
  "isInvalidParamError (Error m) = startsWith m (str ''Invalid param name'')"
| "isInvalidParamError (Block b) = False"

text \<open>
  The events of a strict step that the relaxed step from the same context \<open>ctx\<close> still
  publishes: every block; the error for an unexpected character and the error for
  whitespace in a parameter tag; and the error for a mismatched closing tag when the
  current node accepts no text. Every other error is suppressed.
\<close>

fun publishedInRelaxedMode :: "'tu ParserContext \<Rightarrow> 'tu event \<Rightarrow> bool" where
  "publishedInRelaxedMode ctx (Error m) =
     (startsWith m (str ''Unexpected character'')
      \<or> m = str ''Unexpected whitespace in parameter tag''
      \<or> (startsWith m (str ''Mismatched closing tag'') \<and> \<not> canContainText ctx))"
| "publishedInRelaxedMode ctx (Block b) = True"

text \<open>The same context under another setting of the mode flag.\<close>

definition withMode :: "bool option \<Rightarrow> 'tu ParserContext \<Rightarrow> 'tu ParserContext" where
  "withMode m ctx = ctx\<lparr>options := (options ctx)\<lparr>optRelaxedMode := m\<rparr>\<rparr>"

text \<open>
  The parser that the chunk \<open><read_file>< \<close> leaves behind: the whitespace after the
  second \<open><\<close> sends it to the \<open>Text\<close> state while the tool-use is still open.
\<close>

definition strayFenceParser :: "ToolUse StreamingToolParser" where
  "strayFenceParser =
     \<lparr> parserContext =
         \<lparr> textBuffer = str ''< '', tagBuffer = [], paramValueBuffer = [], closingTagBuffer = [],
           currentNode = Tool (str ''read_file''),
           currentToolUse = Some \<lparr>name = str ''read_file'', params = [], partial = True\<rparr>,
           currentParamName = None, options = readFileOptions \<rparr>,
       currentState = Text \<rparr>"

definition whitespaceAfterFenceError :: "'tu event" where
  "whitespaceAfterFenceError =
     Error (str ''Unexpected whitespace after '' @ apostrophe @ str ''<'' @ apostrophe)"

definition unexpectedXError :: "'tu event" where
  "unexpectedXError =
     Error (str ''Unexpected character '' @ quote @ str ''x'' @ quote @ str '' in read_file context'')"

text \<open>
  The context inside the tool \<open>read_file\<close>, between its parameters, as the tag
  \<open><read_file>\<close> leaves it on a fresh context.
\<close>

definition insideReadFile :: "StreamingToolParserOptions \<Rightarrow> ToolUse ParserContext" where
  "insideReadFile opts =
     (newParserContext opts)
       \<lparr>currentNode := Tool (str ''read_file''),
        currentToolUse := Some \<lparr>name = str ''read_file'', params = [], partial = True\<rparr>\<rparr>"

text \<open>
  The context inside the parameter \<open>path\<close> of that tool, as the tag \<open><path>\<close> leaves
  it, and the errors of the relaxed-mode scenarios.
\<close>

definition insidePath :: "StreamingToolParserOptions \<Rightarrow> ToolUse ParserContext" where
  "insidePath opts =
     (insideReadFile opts)
       \<lparr>currentNode := Param (str ''read_file'') (str ''path''),
        currentParamName := Some (str ''path'')\<rparr>"

definition mismatchedInToolError :: "'tu event" where
  "mismatchedInToolError =
     Error (str ''Mismatched closing tag: expected </read_file> but got </x'')"

definition mismatchedInParamError :: "'tu event" where
  "mismatchedInParamError =
     Error (str ''Mismatched closing tag: expected </path> but got </x'')"

definition whitespaceInTagError :: "'tu event" where
  "whitespaceInTagError = Error (str ''Unexpected whitespace in parameter tag'')"

definition invalidReadFileError :: "'tu event" where
  "invalidReadFileError = Error (str ''Invalid tool name: read_file'')"

text \<open>
  Two contexts that differ at most in the value stored under the name of the parameter
  being read, in the working map of the open tool-use. The snapshot at a chunk end writes
  the pending value there; this is the only trace a chunk boundary leaves in the parser.
\<close>

definition pendingParamOnly :: "ToolUse ParserContext \<Rightarrow> ToolUse ParserContext \<Rightarrow> bool" where
  "pendingParamOnly ctx1 ctx2 =
     (ctx1 = ctx2 \<or>
      (\<exists>t pn tu v.
         currentNode ctx2 = Param t pn \<and> pn \<noteq> [] \<and> currentParamName ctx2 = Some pn
         \<and> currentToolUse ctx2 = Some tu
         \<and> ctx1 = ctx2\<lparr>currentToolUse := Some (tu\<lparr>params := AList.update pn v (params tu)\<rparr>)\<rparr>))"






section \<open>The parameter maps as objects\<close>

text \<open>
  In the code the \<open>params\<close> of a tool-use is an object: the context and every published
  block hold a reference to it, and a subscriber that keeps a block can write to the map
  it holds. Here the maps live in a store, a tool-use holds the address of its map, and
  the four methods that create, write, copy or publish a map are given again on the
  store; every other method is the one above, at this representation of a tool-use.
\<close>

type_synonym ref = nat

record ToolUseRef =
  refName :: jsstring
  refParams :: ref
  refPartial :: bool

record Store =
  objects :: "ref \<Rightarrow> (jsstring \<times> jsstring) list"
  nextRef :: ref

definition emptyStore :: Store where
  "emptyStore = \<lparr> objects = (\<lambda>r. []), nextRef = 0 \<rparr>"

text \<open>A new object: \<open>{}\<close> in \<open>handleValidTag\<close>, \<open>{ ...params }\<close> at a chunk end.\<close>

definition allocate :: "(jsstring \<times> jsstring) list \<Rightarrow> Store \<Rightarrow> ref \<times> Store" where
  "allocate m s = (nextRef s, \<lparr> objects = (objects s)(nextRef s := m), nextRef = Suc (nextRef s) \<rparr>)"

definition storeCurrentParamValue_ref :: "ToolUseRef ParserContext \<Rightarrow> Store \<Rightarrow> Store" where
  "storeCurrentParamValue_ref ctx s =
     (case currentToolUse ctx of
        None \<Rightarrow> s
      | Some tu \<Rightarrow>
          (case currentParamName ctx of
             None \<Rightarrow> s
           | Some pn \<Rightarrow>
               if pn \<noteq> []
               then s\<lparr>objects := (objects s)
                      (refParams tu := AList.update pn (paramValueBuffer ctx) (objects s (refParams tu)))\<rparr>
               else s))"

definition handleValidTag_ref ::
  "ToolUseRef ParserContext \<Rightarrow> NodeSchema \<Rightarrow> Store \<Rightarrow> ToolUseRef step \<times> Store" where
  "handleValidTag_ref ctx0 matchedSchema s =
     (let ctx = ctx0\<lparr>currentNode := matchedSchema\<rparr> in
      if parent matchedSchema = Some Root then
        (let (r, s1) = allocate [] s in
         (([], TextContent,
           ctx\<lparr>currentToolUse :=
                 Some \<lparr>refName = node_name matchedSchema, refParams = r, refPartial = True\<rparr>,
               tagBuffer := []\<rparr>), s1))
      else if parent matchedSchema \<noteq> None \<and> parent matchedSchema \<noteq> Some Root then
        (([], TextContent,
          ctx\<lparr>currentParamName := Some (node_name matchedSchema),
              paramValueBuffer := [], tagBuffer := []\<rparr>), s)
      else (([Error (str ''Unexpected tag structure for '' @ node_name matchedSchema)], Text, ctx), s))"

definition TagNameState_processChar_ref ::
  "ToolUseRef ParserContext \<Rightarrow> character \<Rightarrow> Store \<Rightarrow> ToolUseRef step \<times> Store" where
  "TagNameState_processChar_ref ctx0 c s =
     (if c \<noteq> ascii CHR ''>'' \<and> \<not> whitespaceTest c then
        (let ctx = ctx0\<lparr>tagBuffer := tagBuffer ctx0 @ units c\<rparr> in
         if \<not> hasChildSchemaWithPrefix ctx (tagBuffer ctx)
         then (handleInvalidTag ctx c, s)
         else (([], TagName, ctx), s))
      else
        (case findChildSchema ctx0 (tagBuffer ctx0) of
           Some exactMatch \<Rightarrow>
             if c = ascii CHR ''>'' then handleValidTag_ref ctx0 exactMatch s
             else (prepend_events [Error (str ''Unexpected whitespace in parameter tag'')]
                     (handleInvalidTag ctx0 c), s)
         | None \<Rightarrow> (handleInvalidTag ctx0 c, s)))"

text \<open>
  The spread \<open>{ ...currentToolUse, partial: false }\<close> copies the fields of the tool-use,
  so the final block holds the address of the working map itself.
\<close>

definition processClosingTag_ref ::
  "ToolUseRef ParserContext \<Rightarrow> Store \<Rightarrow> (ToolUseRef step \<times> Store) option" where
  "processClosingTag_ref ctx s =
     (let tagName = closingTagBuffer ctx in
      if node_name (currentNode ctx) = tagName then
        (let (evs, ctx1, s1) =
           (if currentParamName ctx = Some tagName
            then ([], resetParamState ctx, storeCurrentParamValue_ref ctx s)
            else (case currentToolUse ctx of
                    Some tu \<Rightarrow>
                      if refName tu = tagName
                      then ([Block (ToolUseBlock (tu\<lparr>refPartial := False\<rparr>))],
                            resetToolState ctx, s)
                      else ([], ctx, s)
                  | None \<Rightarrow> ([], ctx, s)))
         in (case parent (currentNode ctx1) of
               None \<Rightarrow> None
             | Some up \<Rightarrow>
                 Some ((evs, if up = Root then Text else TextContent,
                        ctx1\<lparr>currentNode := up, closingTagBuffer := []\<rparr>), s1)))
      else Some (processClosingTag_mismatch ctx, s))"

definition ClosingTagState_processChar_ref ::
  "ToolUseRef ParserContext \<Rightarrow> character \<Rightarrow> Store \<Rightarrow> (ToolUseRef step \<times> Store) option" where
  "ClosingTagState_processChar_ref ctx0 c s =
     (if c = ascii CHR ''>'' then processClosingTag_ref ctx0 s
      else
        (let ctx = ctx0\<lparr>closingTagBuffer := closingTagBuffer ctx0 @ units c\<rparr>;
             currentNodeName = node_name (currentNode ctx);
             bufferPrefix = take (length (closingTagBuffer ctx)) currentNodeName
         in if bufferPrefix \<noteq> closingTagBuffer ctx
            then Some (handleMismatchedClosingTag ctx, s)
            else Some (([], ClosingTag, ctx), s)))"

fun processChar_ref ::
  "ParseStateEnum \<Rightarrow> ToolUseRef ParserContext \<Rightarrow> character \<Rightarrow> Store \<Rightarrow> (ToolUseRef step \<times> Store) option" where
  "processChar_ref Text ctx c s = Some (TextState_processChar ctx c, s)"
| "processChar_ref TagOpening ctx c s = Some (TagOpeningState_processChar ctx c, s)"
| "processChar_ref TagName ctx c s = Some (TagNameState_processChar_ref ctx c s)"
| "processChar_ref TextContent ctx c s = Some (TextContentState_processChar ctx c, s)"
| "processChar_ref ClosingTag ctx c s = ClosingTagState_processChar_ref ctx c s"

definition emitPartialAtChunkEnd_ref ::
  "ToolUseRef StreamingToolParser \<Rightarrow> Store \<Rightarrow> ToolUseRef event list \<times> Store" where
  "emitPartialAtChunkEnd_ref p s =
     (let currentStateType = currentState p; ctx = parserContext p in
      if currentStateType = Text \<and> textBuffer ctx \<noteq> [] then
        (let normalizedText = trim (textBuffer ctx) in
         if normalizedText \<noteq> [] then ([Block (TextBlock normalizedText True)], s) else ([], s))
      else
        (case currentToolUse ctx of
           None \<Rightarrow> ([], s)
         | Some tu \<Rightarrow>
             (let s1 = (if currentStateType = TextContent \<and> currentNode ctx \<noteq> Root
                        then storeCurrentParamValue_ref ctx s else s);
                  (r, s2) = allocate (objects s1 (refParams tu)) s1
              in ([Block (ToolUseBlock \<lparr>refName = refName tu, refParams = r, refPartial = True\<rparr>)],
                  s2))))"

subsection \<open>A session with a subscriber\<close>

text \<open>
  The subscriber is any function on the store that is run after every event and between
  two chunks, on the blocks it has received so far. What a handler sees of an event is
  the event with its map read from the store at that moment. Within one step nothing
  reads or writes a map after a block has been published, so the handlers of a step run
  on the store the step leaves.
\<close>

type_synonym subscriber = "ToolUseRef AssistantMessageContent list \<Rightarrow> Store \<Rightarrow> Store"

record Run =
  parser :: "ToolUseRef StreamingToolParser"
  store :: Store
  received :: "ToolUseRef AssistantMessageContent list"
  seen :: "ToolUse event list"

definition newRun :: "StreamingToolParserOptions \<Rightarrow> Run" where
  "newRun opts =
     \<lparr> parser = newStreamingToolParser opts, store = emptyStore, received = [], seen = [] \<rparr>"

definition derefToolUse :: "Store \<Rightarrow> ToolUseRef \<Rightarrow> ToolUse" where
  "derefToolUse s tu =
     \<lparr> name = refName tu, params = objects s (refParams tu), partial = refPartial tu \<rparr>"

fun observe :: "Store \<Rightarrow> ToolUseRef event \<Rightarrow> ToolUse event" where
  "observe s (Block (TextBlock c b)) = Block (TextBlock c b)"
| "observe s (Block (ToolUseBlock tu)) = Block (ToolUseBlock (derefToolUse s tu))"
| "observe s (Error m) = Error m"

fun blocksOf :: "'tu event \<Rightarrow> 'tu AssistantMessageContent list" where
  "blocksOf (Block b) = [b]"
| "blocksOf (Error m) = []"

definition deliver :: "subscriber \<Rightarrow> Run \<Rightarrow> ToolUseRef event \<Rightarrow> Run" where
  "deliver k r ev =
     (let rcv = received r @ blocksOf ev in
      r\<lparr>received := rcv, seen := seen r @ [observe (store r) ev], store := k rcv (store r)\<rparr>)"

definition deliverAll :: "subscriber \<Rightarrow> Run \<Rightarrow> ToolUseRef event list \<Rightarrow> Run" where
  "deliverAll k r evs = foldl (deliver k) r evs"

definition processChar_run :: "subscriber \<Rightarrow> Run \<Rightarrow> character \<Rightarrow> Run option" where
  "processChar_run k r c =
     (case processChar_ref (currentState (parser r)) (parserContext (parser r)) c (store r) of
        None \<Rightarrow> None
      | Some ((evs, st, ctx), s) \<Rightarrow>
          Some (deliverAll k (r\<lparr>parser := \<lparr>parserContext = ctx, currentState = st\<rparr>, store := s\<rparr>) evs))"

fun processChars_run :: "subscriber \<Rightarrow> Run \<Rightarrow> character list \<Rightarrow> Run option" where
  "processChars_run k r [] = Some r"
| "processChars_run k r (c # cs) =
     (case processChar_run k r c of
        None \<Rightarrow> None
      | Some r1 \<Rightarrow> processChars_run k r1 cs)"

definition processChunk_run :: "subscriber \<Rightarrow> Run \<Rightarrow> jsstring \<Rightarrow> Run option" where
  "processChunk_run k r chunk =
     (case processChars_run k r (codePoints chunk) of
        None \<Rightarrow> None
      | Some r1 \<Rightarrow>
          (case emitPartialAtChunkEnd_ref (parser r1) (store r1) of
             (evs, s) \<Rightarrow> Some (deliverAll k (r1\<lparr>store := s\<rparr>) evs)))"

text \<open>Before every chunk the subscriber may write to the maps it holds.\<close>

fun processChunks_run :: "subscriber \<Rightarrow> Run \<Rightarrow> jsstring list \<Rightarrow> Run option" where
  "processChunks_run k r [] = Some r"
| "processChunks_run k r (chunk # chunks) =
     (case processChunk_run k (r\<lparr>store := k (received r) (store r)\<rparr>) chunk of
        None \<Rightarrow> None
      | Some r1 \<Rightarrow> processChunks_run k r1 chunks)"

definition finalize_run :: "subscriber \<Rightarrow> Run \<Rightarrow> Run" where
  "finalize_run k r =
     (case finalize (parser r) of
        (evs, p) \<Rightarrow> deliverAll k (r\<lparr>parser := p, store := k (received r) (store r)\<rparr>) evs)"

text \<open>The addresses of the maps in the blocks received.\<close>

fun refsOf :: "ToolUseRef AssistantMessageContent list \<Rightarrow> ref set" where
  "refsOf [] = {}"
| "refsOf (TextBlock c b # bs) = refsOf bs"
| "refsOf (ToolUseBlock tu # bs) = insert (refParams tu) (refsOf bs)"

text \<open>
  A subscriber writes only to the maps of the blocks it has received (it creates no
  object of the parser's).
\<close>

definition mutatesOnlyReceived :: "subscriber \<Rightarrow> bool" where
  "mutatesOnlyReceived k =
     (\<forall>rcv s. nextRef (k rcv s) = nextRef s
              \<and> (\<forall>r. r \<notin> refsOf rcv \<longrightarrow> objects (k rcv s) r = objects s r))"

text \<open>The context and the parser with the working map read from the store.\<close>

definition derefContext :: "Store \<Rightarrow> ToolUseRef ParserContext \<Rightarrow> ToolUse ParserContext" where
  "derefContext s ctx =
     \<lparr> textBuffer = textBuffer ctx, tagBuffer = tagBuffer ctx,
       paramValueBuffer = paramValueBuffer ctx, closingTagBuffer = closingTagBuffer ctx,
       currentNode = currentNode ctx,
       currentToolUse = map_option (derefToolUse s) (currentToolUse ctx),
       currentParamName = currentParamName ctx, options = options ctx \<rparr>"

definition derefParser :: "Store \<Rightarrow> ToolUseRef StreamingToolParser \<Rightarrow> ToolUse StreamingToolParser" where
  "derefParser s p =
     \<lparr> parserContext = derefContext s (parserContext p), currentState = currentState p \<rparr>"

definition workingRef :: "ToolUseRef ParserContext \<Rightarrow> ref option" where
  "workingRef ctx = map_option refParams (currentToolUse ctx)"

text \<open>
  Isolation: every map received and the working map are allocated, and the working
  map, if there is one, has not been received.
\<close>

definition isolated :: "Run \<Rightarrow> bool" where
  "isolated r =
     ((\<forall>x \<in> refsOf (received r). x < nextRef (store r)) \<and>
      (\<forall>w. workingRef (parserContext (parser r)) = Some w
            \<longrightarrow> w < nextRef (store r) \<and> w \<notin> refsOf (received r)))"

text \<open>A subscriber that rewrites every map it has received, and one that does nothing.\<close>

definition scribbler :: subscriber where
  "scribbler rcv s =
     s\<lparr>objects := (\<lambda>r. if r \<in> refsOf rcv then [(str ''path'', str ''overwritten'')] else objects s r)\<rparr>"

definition idleSubscriber :: subscriber where
  "idleSubscriber rcv s = s"

text \<open>A step's result with the working map read from the store.\<close>

definition derefStep :: "Store \<Rightarrow> ToolUseRef step \<Rightarrow> ToolUse step" where
  "derefStep s r = (case r of (evs, st, ctx) \<Rightarrow> (map (observe s) evs, st, derefContext s ctx))"

text \<open>
  What one step may do to the store, to the working map (\<open>w\<close> before, \<open>w'\<close> after)
  and with the maps it publishes: no object disappears; the working map stays, is
  dropped, or is a new object; and a step that publishes a tool-use publishes nothing
  else, either the working map, which it then drops, or a new object.
\<close>

definition stepFrame :: "Store \<Rightarrow> ref option \<Rightarrow> Store \<Rightarrow> ref option \<Rightarrow> ToolUseRef event list \<Rightarrow> bool" where
  "stepFrame s w s' w' evs =
     (nextRef s \<le> nextRef s' \<and>
      (w' = None \<or> w' = w \<or> (w' = Some (nextRef s) \<and> nextRef s < nextRef s')) \<and>
      (\<not> list_ex isToolUseEvent evs \<or>
       (\<exists>tu. evs = [Block (ToolUseBlock tu)] \<and>
             ((w = Some (refParams tu) \<and> w' = None) \<or>
              (refParams tu = nextRef s \<and> nextRef s < nextRef s' \<and> w' = w)))))"

text \<open>
  An example session: the parameter value arrives in two chunks, so a partial snapshot
  is published (and rewritten by the subscriber) before the tool-use closes.
  \<open>openPathParser\<close> and \<open>openPathStore\<close> are the parser and the store inside the
  parameter, before that snapshot.
\<close>

definition splitPathChunks :: "jsstring list" where
  "splitPathChunks = [str ''<read_file><path>a'', str ''b</path></read_file>'']"

definition openPathParser :: "ToolUseRef StreamingToolParser" where
  "openPathParser =
     \<lparr> parserContext =
         (newParserContext readFileOptions)
           \<lparr>paramValueBuffer := str ''a'', currentNode := Param (str ''read_file'') (str ''path''),
            currentToolUse := Some \<lparr>refName = str ''read_file'', refParams = 0, refPartial = True\<rparr>,
            currentParamName := Some (str ''path'')\<rparr>,
       currentState = TextContent \<rparr>"

definition openPathStore :: Store where
  "openPathStore = \<lparr> objects = (\<lambda>r. []), nextRef = 1 \<rparr>"

definition mapAt :: "ref \<Rightarrow> Run \<Rightarrow> (jsstring \<times> jsstring) list" where
  "mapAt x r = objects (store r) x"

section \<open>Basic facts\<close>

lemmas state_defs =
  TextState_processChar_def TagOpeningState_processChar_def TagNameState_processChar_def
  TextContentState_processChar_def ClosingTagState_processChar_def handleValidTag_def
  handleInvalidTag_def handleInvalidTag_fallback_def handleMismatchedClosingTag_def
  processClosingTag_def processClosingTag_mismatch_def prepend_events_def

lemmas ctx_defs =
  resetParamState_def resetToolState_def storeCurrentParamValue_def canContainText_def

subsection \<open>Characters\<close>

lemma units_nonempty [simp]: "units c \<noteq> []"
  by (cases c) simp_all

lemma ascii_eq_iff [simp]: "ascii a = ascii b \<longleftrightarrow> a = b"
  by (simp add: ascii_def)

lemma units_ascii [simp]: "units (ascii a) = [of_char a]"
  by (simp add: ascii_def)

lemma str_simps [simp]:
  "str [] = []"
  "str (a # s) = of_char a # str s"
  by (simp_all add: str_def)

subsection \<open>The options never change\<close>

lemma options_processChar:
  "processChar st ctx c = Some (evs, st', ctx') \<Longrightarrow> options ctx' = options ctx"
  by (cases st)
     (auto simp: state_defs ctx_defs Let_def split: if_splits option.splits prod.splits)

lemma options_processChars:
  "processChars p s = Some (evs, p') \<Longrightarrow> options (parserContext p') = options (parserContext p)"
proof (induction s arbitrary: p evs)
  case Nil
  then show ?case by simp
next
  case (Cons c cs)
  then show ?case
    by (auto split: option.splits prod.splits dest!: options_processChar)
qed

lemma options_emitPartialAtChunkEnd:
  "options (parserContext (snd (emitPartialAtChunkEnd p))) = options (parserContext p)"
  by (auto simp: emitPartialAtChunkEnd_def ctx_defs Let_def split: option.splits)

lemma options_processChunk:
  "processChunk p s = Some (evs, p') \<Longrightarrow> options (parserContext p') = options (parserContext p)"
  using options_emitPartialAtChunkEnd
  by (auto simp: processChunk_def split: option.splits prod.splits dest!: options_processChars)
     (metis snd_conv)

lemma options_processChunks:
  "processChunks p cs = Some (evs, p') \<Longrightarrow> options (parserContext p') = options (parserContext p)"
proof (induction cs arbitrary: p evs)
  case Nil
  then show ?case by simp
next
  case (Cons c cs)
  then show ?case
    by (auto split: option.splits prod.splits dest!: options_processChunk)
qed

lemma finalize_fresh: "snd (finalize p) = newStreamingToolParser (options (parserContext p))"
  by (simp add: finalize_def newStreamingToolParser_def newParserContext_def ctx_defs Let_def)

subsection \<open>Consistency of the context; the parser never fails\<close>

lemma findChildSchema_Some:
  "findChildSchema ctx n = Some m \<Longrightarrow>
     (currentNode ctx = Root \<and> m = Tool n) \<or> (\<exists>t. currentNode ctx = Tool t \<and> m = Param t n)"
  by (cases "currentNode ctx")
     (auto simp: findChildSchema_def find_Some_iff split: option.splits)

lemma consistent_processChar:
  assumes "consistent st ctx" and "processChar st ctx c = Some (evs, st', ctx')"
  shows "consistent st' ctx'"
proof (cases st)
  case Text
  with assms show ?thesis
    by (auto simp: consistent_def state_defs ctx_defs Let_def split: if_splits NodeSchema.splits)
next
  case TagOpening
  with assms show ?thesis
    by (auto simp: consistent_def state_defs ctx_defs Let_def split: if_splits NodeSchema.splits)
next
  case TagName
  with assms show ?thesis
    by (auto simp: consistent_def state_defs ctx_defs Let_def
             split: if_splits NodeSchema.splits option.splits dest!: findChildSchema_Some)
next
  case TextContent
  with assms show ?thesis
    by (auto simp: consistent_def state_defs ctx_defs Let_def split: if_splits NodeSchema.splits)
next
  case ClosingTag
  with assms show ?thesis
    by (auto simp: consistent_def state_defs ctx_defs Let_def
             split: if_splits NodeSchema.splits option.splits prod.splits)
qed

lemma consistent_total:
  "consistent st ctx \<Longrightarrow> \<exists>r. processChar st ctx c = Some r"
  by (cases st)
     (auto simp: consistent_def state_defs ctx_defs Let_def
           split: if_splits NodeSchema.splits option.splits prod.splits)

lemma consistent_processChars:
  assumes "consistentParser p"
  shows "\<exists>evs p'. processChars p s = Some (evs, p') \<and> consistentParser p'"
  using assms
proof (induction s arbitrary: p)
  case Nil
  then show ?case by simp
next
  case (Cons c cs)
  from Cons.prems obtain evs st ctx
    where step: "processChar (currentState p) (parserContext p) c = Some (evs, st, ctx)"
    using consistent_total [of "currentState p" "parserContext p" c]
    by (auto simp: consistentParser_def)
  with Cons.prems have "consistentParser \<lparr>parserContext = ctx, currentState = st\<rparr>"
    using consistent_processChar [OF _ step] by (simp add: consistentParser_def)
  from Cons.IH [OF this] step show ?case by auto
qed

lemma consistent_emitPartialAtChunkEnd:
  "consistentParser p \<Longrightarrow> consistentParser (snd (emitPartialAtChunkEnd p))"
  by (auto simp: consistentParser_def consistent_def emitPartialAtChunkEnd_def ctx_defs Let_def
           split: option.splits NodeSchema.splits)

lemma consistent_processChunk:
  assumes "consistentParser p"
  shows "\<exists>evs p'. processChunk p s = Some (evs, p') \<and> consistentParser p'"
proof -
  from consistent_processChars [OF assms, of "codePoints s"] obtain evs p1
    where 1: "processChars p (codePoints s) = Some (evs, p1)" and 2: "consistentParser p1" by blast
  obtain evs' p2 where 3: "emitPartialAtChunkEnd p1 = (evs', p2)" by force
  with consistent_emitPartialAtChunkEnd [OF 2] have "consistentParser p2" by simp
  with 1 3 show ?thesis by (simp add: processChunk_def)
qed

lemma consistent_processChunks:
  assumes "consistentParser p"
  shows "\<exists>evs p'. processChunks p cs = Some (evs, p') \<and> consistentParser p'"
  using assms
proof (induction cs arbitrary: p)
  case Nil
  then show ?case by simp
next
  case (Cons c cs)
  from consistent_processChunk [OF Cons.prems, of c] obtain evs p1
    where 1: "processChunk p c = Some (evs, p1)" and 2: "consistentParser p1" by blast
  from Cons.IH [OF 2] 1 show ?case by auto
qed

lemma consistent_new: "consistentParser (newStreamingToolParser opts)"
  by (simp add: consistentParser_def consistent_def newStreamingToolParser_def newParserContext_def)

lemma consistent_finalize: "consistentParser (snd (finalize p))"
  by (simp add: finalize_fresh consistent_new)

subsection \<open>Trimming\<close>

lemma trim_idem: "trim (trim s) = trim s"
proof -
  let ?t = "dropWhile isWhitespace s"
  let ?u = "rev (dropWhile isWhitespace (rev ?t))"
  have t: "?t = [] \<or> \<not> isWhitespace (hd ?t)"
    by (metis hd_dropWhile)
  have u: "?u = [] \<or> \<not> isWhitespace (hd ?u)"
  proof (cases "?u = []")
    case True
    then show ?thesis by simp
  next
    case False
    then have ne: "dropWhile isWhitespace (rev ?t) \<noteq> []" by simp
    then obtain x where x: "x \<in> set (rev ?t)" "\<not> isWhitespace x"
      by auto
    have "hd ?u = last (dropWhile isWhitespace (rev ?t))"
      using ne by (simp add: hd_rev)
    also have "\<dots> = last (rev ?t)"
      using x by (rule dropWhile_last)
    also have "\<dots> = hd ?t"
      using x(1) by (cases ?t) (simp_all add: last_rev)
    finally have "hd ?u = hd ?t" .
    moreover have "?t \<noteq> []" using x(1) by (cases ?t) simp_all
    ultimately show ?thesis using t by metis
  qed
  have 1: "dropWhile isWhitespace ?u = ?u"
    using u by (simp add: dropWhile_eq_self_iff)
  have 2: "dropWhile isWhitespace (rev ?u) = rev ?u"
    by simp
  show ?thesis
    unfolding trim_def using 1 2 by simp
qed

subsection \<open>Text blocks are trimmed\<close>

lemma trimmedText_processChar:
  "processChar st ctx c = Some (evs, st', ctx') \<Longrightarrow> list_all trimmedText evs"
  by (cases st)
     (auto simp: state_defs ctx_defs Let_def trim_idem
           split: if_splits option.splits prod.splits)

lemma trimmedText_processChars:
  "processChars p s = Some (evs, p') \<Longrightarrow> list_all trimmedText evs"
proof (induction s arbitrary: p evs)
  case Nil
  then show ?case by simp
next
  case (Cons c cs)
  then show ?case
    by (auto split: option.splits prod.splits dest: trimmedText_processChar)
qed

lemma trimmedText_emitPartialAtChunkEnd:
  "list_all trimmedText (fst (emitPartialAtChunkEnd p))"
  by (auto simp: emitPartialAtChunkEnd_def Let_def trim_idem split: option.splits)

lemma trimmedText_processChunk:
  assumes "processChunk p s = Some (evs, p')"
  shows "list_all trimmedText evs"
proof -
  from assms obtain evs1 p1 evs2
    where 1: "processChars p (codePoints s) = Some (evs1, p1)"
      and 2: "emitPartialAtChunkEnd p1 = (evs2, p')"
      and 3: "evs = evs1 @ evs2"
    by (auto simp: processChunk_def split: option.splits prod.splits)
  from trimmedText_emitPartialAtChunkEnd [of p1] 2 have "list_all trimmedText evs2" by simp
  with trimmedText_processChars [OF 1] 3 show ?thesis by simp
qed

lemma trimmedText_processChunks:
  "processChunks p cs = Some (evs, p') \<Longrightarrow> list_all trimmedText evs"
proof (induction cs arbitrary: p evs)
  case Nil
  then show ?case by simp
next
  case (Cons c cs)
  then show ?case
    by (auto split: option.splits prod.splits dest: trimmedText_processChunk)
qed

lemma trimmedText_finalize: "list_all trimmedText (fst (finalize p))"
  by (simp add: finalize_def Let_def trim_idem)

text \<open>
Claim C8. Every text block published during a session (by a character step, by the
  partial snapshot at a chunk end, or by \<open>finalize\<close>; partial or final; strict or relaxed
  mode; from any parser state) has a content that is not empty and equals its own trim,
  so no text block is empty or made of whitespace only.
\<close>

theorem text_blocks_trimmed:
  "\<exists>evs. session (newStreamingToolParser opts) chunks = Some evs
         \<and> (\<forall>s b. Block (TextBlock s b) \<in> set evs \<longrightarrow> s \<noteq> [] \<and> trim s = s)"
proof -
  obtain evs1 p' where 1: "processChunks (newStreamingToolParser opts) chunks = Some (evs1, p')"
    using consistent_processChunks [OF consistent_new] by blast
  from trimmedText_processChunks [OF 1] trimmedText_finalize [of p']
  have all: "list_all trimmedText (evs1 @ fst (finalize p'))" by simp
  have "\<forall>s b. Block (TextBlock s b) \<in> set (evs1 @ fst (finalize p')) \<longrightarrow> s \<noteq> [] \<and> trim s = s"
  proof (intro allI impI)
    fix s b assume "Block (TextBlock s b) \<in> set (evs1 @ fst (finalize p'))"
    with all have "trimmedText (Block (TextBlock s b) :: ToolUse event)"
      unfolding list_all_iff by blast
    then show "s \<noteq> [] \<and> trim s = s" by simp
  qed
  moreover from 1 have "session (newStreamingToolParser opts) chunks = Some (evs1 @ fst (finalize p'))"
    by (simp add: session_def)
  ultimately show ?thesis by blast
qed

theorem text_blocks_trimmed_witness:
  "session (newStreamingToolParser readFileOptions) [str '' hi '']
     = Some [Block (TextBlock (str ''hi'') True), Block (TextBlock (str ''hi'') False)]
   \<and> (str ''hi'') \<noteq> [] \<and> trim (str ''hi'') = str ''hi''"
proof -
  have run: "session (newStreamingToolParser readFileOptions) [str '' hi '']
               = Some [Block (TextBlock (str ''hi'') True), Block (TextBlock (str ''hi'') False)]"
    by code_simp
  from text_blocks_trimmed [of readFileOptions "[str '' hi '']"] run
  have "(str ''hi'') \<noteq> [] \<and> trim (str ''hi'') = str ''hi''"
    by auto
  with run show ?thesis by simp
qed

text \<open>
Claim C6. Whatever chunks a parser built from \<open>opts\<close> has been fed, after \<open>finalize\<close>
  it is the parser the constructor builds from \<open>opts\<close> (all four buffers empty, no tool-use
  and no parameter name, current node the root, state \<open>Text\<close>), so any further chunks
  publish the same block and error events as on a fresh parser.
\<close>

theorem parser_reusability:
  "\<exists>evs p. processChunks (newStreamingToolParser opts) history = Some (evs, p)
           \<and> snd (finalize p) = newStreamingToolParser opts
           \<and> processChunks (snd (finalize p)) chunks
               = processChunks (newStreamingToolParser opts) chunks
           \<and> session (snd (finalize p)) chunks = session (newStreamingToolParser opts) chunks"
proof -
  obtain evs p where h: "processChunks (newStreamingToolParser opts) history = Some (evs, p)"
    using consistent_processChunks [OF consistent_new] by blast
  have "options (parserContext p) = opts"
    using options_processChunks [OF h]
    by (simp add: newStreamingToolParser_def newParserContext_def)
  then have "snd (finalize p) = newStreamingToolParser opts"
    by (simp add: finalize_fresh)
  with h show ?thesis by simp
qed

theorem parser_reusability_witness:
  "(case processChunks (newStreamingToolParser readFileOptions) [str ''<read_file><path>a''] of
      None \<Rightarrow> False
    | Some (evs, p) \<Rightarrow>
        currentState p = TextContent
        \<and> snd (finalize p) = newStreamingToolParser readFileOptions
        \<and> session (snd (finalize p)) [str ''hi''] = session (newStreamingToolParser readFileOptions) [str ''hi''])"
proof -
  from parser_reusability [of readFileOptions "[str ''<read_file><path>a'']" "[str ''hi'']"]
  obtain evs p
    where h: "processChunks (newStreamingToolParser readFileOptions) [str ''<read_file><path>a''] = Some (evs, p)"
      and f: "snd (finalize p) = newStreamingToolParser readFileOptions"
      and s: "session (snd (finalize p)) [str ''hi''] = session (newStreamingToolParser readFileOptions) [str ''hi'']"
    by blast
  have "map_option (currentState \<circ> snd)
          (processChunks (newStreamingToolParser readFileOptions) [str ''<read_file><path>a''])
        = Some TextContent"
    by code_simp
  with h have "currentState p = TextContent" by simp
  with h f s show ?thesis
    by simp
qed

text \<open>
Claim C10. When the stream ends while an opening tag is being read (state \<open>TagOpening\<close>
  or \<open>TagName\<close>), \<open>finalize\<close> publishes nothing and resets the parser: the \<open><\<close> and the
  tag name gathered in the tag buffer are dropped and reach no block.
\<close>

theorem finalize_drops_open_tag:
  assumes "currentState p = TagOpening \<or> currentState p = TagName"
  shows "fst (finalize p) = []
         \<and> snd (finalize p) = newStreamingToolParser (options (parserContext p))"
proof
  from assms show "fst (finalize p) = []"
    by (auto simp: finalize_def Let_def)
  show "snd (finalize p) = newStreamingToolParser (options (parserContext p))"
    by (rule finalize_fresh)
qed

theorem finalize_drops_open_tag_witness:
  "(case processChunks (newStreamingToolParser readFileOptions) [str ''<read_fi''] of
      None \<Rightarrow> False
    | Some (evs, p) \<Rightarrow>
        evs = [] \<and> currentState p = TagName \<and> tagBuffer (parserContext p) = str ''read_fi''
        \<and> fst (finalize p) = []
        \<and> snd (finalize p) = newStreamingToolParser readFileOptions)"
proof -
  obtain evs p
    where h: "processChunks (newStreamingToolParser readFileOptions) [str ''<read_fi''] = Some (evs, p)"
    using consistent_processChunks [OF consistent_new] by blast
  have "map_option (\<lambda>(evs, p). (evs, currentState p, tagBuffer (parserContext p), options (parserContext p)))
          (processChunks (newStreamingToolParser readFileOptions) [str ''<read_fi''])
        = Some ([], TagName, str ''read_fi'', readFileOptions)"
    by code_simp
  with h have st: "evs = []" "currentState p = TagName" "tagBuffer (parserContext p) = str ''read_fi''"
    "options (parserContext p) = readFileOptions"
    by simp_all
  from finalize_drops_open_tag [of p] st h show ?thesis
    by simp
qed

text \<open>
After the chunk \<open><read_file>< \<close> a tool-use is open, yet the parser is in the \<open>Text\<close>
  state with a non-empty text buffer: an empty chunk then publishes a partial text block
  and no snapshot of the tool-use.
\<close>

theorem empty_chunk_counterexample:
  "parserAfter readFileOptions [str ''<read_file>< ''] = Some strayFenceParser
   \<and> currentToolUse (parserContext strayFenceParser)
       = Some \<lparr>name = str ''read_file'', params = [], partial = True\<rparr>
   \<and> processChunk strayFenceParser [] = Some ([Block (TextBlock (str ''<'') True)], strayFenceParser)"
  by code_simp

text \<open>
Claim C9, as the code has it. When a tool-use is open and the parser is not in the
  \<open>Text\<close> state with a non-empty text buffer, \<open>processChunk("")\<close> publishes exactly one
  event, a partial snapshot of the open tool-use: its name, and its parameters, where in
  the \<open>TextContent\<close> state below the root the value read so far of the parameter being
  read is stored under that parameter's name. A further empty chunk publishes the same
  snapshot again.
\<close>

theorem empty_chunk_reemits:
  assumes "currentToolUse (parserContext p) = Some tu"
    and "\<not> (currentState p = Text \<and> textBuffer (parserContext p) \<noteq> [])"
  shows "\<exists>snapshot p'.
           snapshot =
             \<lparr>name = name tu,
              params =
                (case currentParamName (parserContext p) of
                   None \<Rightarrow> params tu
                 | Some pn \<Rightarrow>
                     if currentState p = TextContent \<and> currentNode (parserContext p) \<noteq> Root
                        \<and> pn \<noteq> []
                     then AList.update pn (paramValueBuffer (parserContext p)) (params tu)
                     else params tu),
              partial = True\<rparr>
           \<and> processChunk p [] = Some ([Block (ToolUseBlock snapshot)], p')
           \<and> processChunk p' [] = Some ([Block (ToolUseBlock snapshot)], p')"
  using assms
  by (cases "currentParamName (parserContext p)")
     (auto simp: processChunk_def emitPartialAtChunkEnd_def storeCurrentParamValue_def Let_def)

theorem empty_chunk_reemits_witness:
  "(case parserAfter readFileOptions [str ''<read_file><path>a'', str ''b''] of
      None \<Rightarrow> False
    | Some p \<Rightarrow>
        currentToolUse (parserContext p)
          = Some \<lparr>name = str ''read_file'', params = [(str ''path'', str ''ab'')], partial = True\<rparr>
        \<and> currentState p = TextContent
        \<and> (case processChunk p [] of
              None \<Rightarrow> False
            | Some (evs, p') \<Rightarrow>
                evs = [Block (ToolUseBlock
                         \<lparr>name = str ''read_file'', params = [(str ''path'', str ''ab'')],
                          partial = True\<rparr>)]
                \<and> map_option fst (processChunk p' []) = Some evs))"
proof -
  obtain evs p
    where h: "processChunks (newStreamingToolParser readFileOptions)
                [str ''<read_file><path>a'', str ''b''] = Some (evs, p)"
    using consistent_processChunks [OF consistent_new] by blast
  have "map_option (\<lambda>(evs, p). (currentToolUse (parserContext p), currentState p,
                                 currentParamName (parserContext p),
                                 currentNode (parserContext p),
                                 paramValueBuffer (parserContext p)))
          (processChunks (newStreamingToolParser readFileOptions)
             [str ''<read_file><path>a'', str ''b''])
        = Some (Some \<lparr>name = str ''read_file'', params = [(str ''path'', str ''ab'')],
                      partial = True\<rparr>,
                TextContent, Some (str ''path''), Param (str ''read_file'') (str ''path''),
                str ''ab'')"
    by code_simp
  with h have st: "currentToolUse (parserContext p)
          = Some \<lparr>name = str ''read_file'', params = [(str ''path'', str ''ab'')], partial = True\<rparr>"
    "currentState p = TextContent"
    "currentParamName (parserContext p) = Some (str ''path'')"
    "currentNode (parserContext p) = Param (str ''read_file'') (str ''path'')"
    "paramValueBuffer (parserContext p) = str ''ab''"
    by simp_all
  from st have "\<not> (currentState p = Text \<and> textBuffer (parserContext p) \<noteq> [])" by simp
  from empty_chunk_reemits [OF st(1) this] st h show ?thesis
    by (auto simp: parserAfter_def)
qed

text \<open>
One chunk that closes a first tool-use and leaves a second one open in the \<open>Text\<close>
  state: the only tool-use event before \<open>finalize\<close> is the final block of the first, and
  \<open>finalize\<close> publishes a text block.
\<close>

theorem last_tool_use_counterexample:
  "processChunks (newStreamingToolParser readFileOptions) [str ''<read_file></read_file><read_file>< '']
     = Some ([Block (ToolUseBlock \<lparr>name = str ''read_file'', params = [], partial = False\<rparr>),
              whitespaceAfterFenceError,
              Block (TextBlock (str ''<'') True)],
             strayFenceParser)
   \<and> currentToolUse (parserContext strayFenceParser)
       = Some \<lparr>name = str ''read_file'', params = [], partial = True\<rparr>
   \<and> fst (finalize strayFenceParser) = [Block (TextBlock (str ''<'') False)]
   \<and> last (filter isToolUseEvent
         [Block (ToolUseBlock \<lparr>name = str ''read_file'', params = [], partial = False\<rparr>),
          whitespaceAfterFenceError,
          Block (TextBlock (str ''<'') True)])
       = Block (ToolUseBlock \<lparr>name = str ''read_file'', params = [], partial = False\<rparr>)"
  by code_simp

text \<open>
Claim C4, as the code has it. \<open>finalize\<close> publishes the trimmed text buffer as a final
  text block exactly when the parser is in the \<open>Text\<close> state and the trimmed text is not
  empty, and nothing else, so never a tool-use. The snapshot at a chunk end is always
  partial, and a character step publishes a final tool-use block only for the tool-use it
  closes, leaving no tool-use open: every event published for a tool-use that is still
  open at \<open>finalize\<close> is partial.
\<close>

theorem finalize_emission:
  "fst (finalize p)
     = (if currentState p = Text \<and> trim (textBuffer (parserContext p)) \<noteq> []
        then [Block (TextBlock (trim (textBuffer (parserContext p))) False)] else [])
   \<and> (\<forall>tu. Block (ToolUseBlock tu) \<in> set (fst (emitPartialAtChunkEnd p)) \<longrightarrow> partial tu)
   \<and> (\<forall>c evs st' ctx' tu.
         processChar (currentState p) (parserContext p) c = Some (evs, st', ctx')
         \<longrightarrow> Block (ToolUseBlock tu) \<in> set evs \<longrightarrow> \<not> partial tu
         \<longrightarrow> currentToolUse ctx' = None
             \<and> (\<exists>pending. currentToolUse (parserContext p) = Some pending
                          \<and> tu = pending\<lparr>partial := False\<rparr>))"
proof (intro conjI allI impI)
  show "fst (finalize p)
     = (if currentState p = Text \<and> trim (textBuffer (parserContext p)) \<noteq> []
        then [Block (TextBlock (trim (textBuffer (parserContext p))) False)] else [])"
    by (auto simp: finalize_def Let_def trim_def)
next
  fix tu assume "Block (ToolUseBlock tu) \<in> set (fst (emitPartialAtChunkEnd p))"
  then show "partial tu"
    by (auto simp: emitPartialAtChunkEnd_def Let_def split: if_splits option.splits)
next
  fix c evs st' ctx' tu
  assume "processChar (currentState p) (parserContext p) c = Some (evs, st', ctx')"
    and "Block (ToolUseBlock tu) \<in> set evs" and "\<not> partial tu"
  then show "currentToolUse ctx' = None"
    by (cases "currentState p")
       (auto simp: state_defs ctx_defs Let_def split: if_splits option.splits prod.splits)
next
  fix c evs st' ctx' tu
  assume "processChar (currentState p) (parserContext p) c = Some (evs, st', ctx')"
    and "Block (ToolUseBlock tu) \<in> set evs" and "\<not> partial tu"
  then show "\<exists>pending. currentToolUse (parserContext p) = Some pending
                          \<and> tu = pending\<lparr>partial := False\<rparr>"
    by (cases "currentState p")
       (auto simp: state_defs ctx_defs Let_def split: if_splits option.splits prod.splits)
qed

theorem finalize_emission_witness:
  "(case parserAfter readFileOptions [str ''<read_file></read_file''] of
      None \<Rightarrow> False
    | Some p \<Rightarrow>
        fst (finalize p) = []
        \<and> fst (emitPartialAtChunkEnd p)
            = [Block (ToolUseBlock \<lparr>name = str ''read_file'', params = [], partial = True\<rparr>)]
        \<and> (case processChar (currentState p) (parserContext p) (ascii CHR ''>'') of
              None \<Rightarrow> False
            | Some (evs, st', ctx') \<Rightarrow>
                evs = [Block (ToolUseBlock \<lparr>name = str ''read_file'', params = [], partial = False\<rparr>)]
                \<and> currentToolUse ctx' = None))"
proof -
  obtain evs0 p
    where h: "processChunks (newStreamingToolParser readFileOptions) [str ''<read_file></read_file''] = Some (evs0, p)"
    using consistent_processChunks [OF consistent_new] by blast
  have "map_option (\<lambda>(evs, p). (currentState p, trim (textBuffer (parserContext p)),
                                  fst (emitPartialAtChunkEnd p),
                                  map_option fst (processChar (currentState p) (parserContext p) (ascii CHR ''>''))))
          (processChunks (newStreamingToolParser readFileOptions) [str ''<read_file></read_file''])
        = Some (ClosingTag, [],
                [Block (ToolUseBlock \<lparr>name = str ''read_file'', params = [], partial = True\<rparr>)],
                Some [Block (ToolUseBlock \<lparr>name = str ''read_file'', params = [], partial = False\<rparr>)])"
    by code_simp
  with h obtain st' ctx' where st: "currentState p = ClosingTag"
    "fst (emitPartialAtChunkEnd p)
       = [Block (ToolUseBlock \<lparr>name = str ''read_file'', params = [], partial = True\<rparr>)]"
    "processChar (currentState p) (parserContext p) (ascii CHR ''>'')
       = Some ([Block (ToolUseBlock \<lparr>name = str ''read_file'', params = [], partial = False\<rparr>)], st', ctx')"
    by auto
  from finalize_emission [of p] st h show ?thesis
    by (simp add: parserAfter_def)
qed

text \<open>
Whitespace before a tool stays in the text buffer (only a non-empty trimmed text is
  flushed), so inside the parameter both buffers are non-empty.
\<close>

theorem buffer_exclusivity_counterexample:
  "map_option (textBuffer \<circ> parserContext) (parserAfter readFileOptions [str '' <read_file><path>v''])
     = Some (str '' '')
   \<and> map_option (paramValueBuffer \<circ> parserContext) (parserAfter readFileOptions [str '' <read_file><path>v''])
     = Some (str ''v'')"
  by code_simp

text \<open>
Claim C5, as the code has it. At every point of a run on a fresh parser (after any
  chunks and any further characters of the next chunk, in both modes), the parameter
  buffer is empty whenever the current node is the root; both buffers can only be
  non-empty together inside a tool.
\<close>

theorem param_buffer_empty_at_root:
  "\<exists>evs p evs' p'.
     processChunks (newStreamingToolParser opts) chunks = Some (evs, p)
     \<and> processChars p s = Some (evs', p')
     \<and> (currentNode (parserContext p') = Root \<longrightarrow> paramValueBuffer (parserContext p') = [])"
proof -
  from consistent_processChunks [OF consistent_new, of opts chunks] obtain evs p
    where 1: "processChunks (newStreamingToolParser opts) chunks = Some (evs, p)"
      and "consistentParser p"
    by blast
  from consistent_processChars [OF this(2), of s] obtain evs' p'
    where 2: "processChars p s = Some (evs', p')" and "consistentParser p'"
    by blast
  then have "currentNode (parserContext p') = Root \<longrightarrow> paramValueBuffer (parserContext p') = []"
    by (auto simp: consistentParser_def consistent_def)
  with 1 2 show ?thesis by blast
qed

theorem param_buffer_empty_at_root_witness:
  "(case processChunks (newStreamingToolParser readFileOptions) [str '' <read_file><path>v''] of
      None \<Rightarrow> False
    | Some (evs, p) \<Rightarrow>
        (case processChars p (codePoints (str ''</path></read_file> a'')) of
           None \<Rightarrow> False
         | Some (evs', p') \<Rightarrow>
             currentNode (parserContext p') = Root
             \<and> textBuffer (parserContext p') = str ''  a''
             \<and> paramValueBuffer (parserContext p') = []))"
proof -
  from param_buffer_empty_at_root
         [of readFileOptions "[str '' <read_file><path>v'']"
             "codePoints (str ''</path></read_file> a'')"]
  obtain evs p evs' p'
    where h: "processChunks (newStreamingToolParser readFileOptions) [str '' <read_file><path>v''] = Some (evs, p)"
      and h': "processChars p (codePoints (str ''</path></read_file> a'')) = Some (evs', p')"
      and e: "currentNode (parserContext p') = Root \<longrightarrow> paramValueBuffer (parserContext p') = []"
    by blast
  have "(case processChunks (newStreamingToolParser readFileOptions) [str '' <read_file><path>v''] of
      None \<Rightarrow> None
    | Some (evs, p) \<Rightarrow>
        (case processChars p (codePoints (str ''</path></read_file> a'')) of
           None \<Rightarrow> None
         | Some (evs', p') \<Rightarrow>
             Some (currentNode (parserContext p'), textBuffer (parserContext p'))))
     = Some (Root, str ''  a'')"
    by code_simp
  with h h' have st: "currentNode (parserContext p') = Root" "textBuffer (parserContext p') = str ''  a''"
    by simp_all
  with e h h' show ?thesis
    by simp
qed

text \<open>
  An unexpected character inside a tool goes to the text buffer, which \<open>finalize\<close> only
  publishes from the \<open>Text\<close> state: when the stream ends inside the tool the character
  reaches no block.
\<close>

theorem error_data_loss_counterexample:
  "session (newStreamingToolParser readFileOptions) [str ''<read_file>x'']
     = Some [unexpectedXError,
             Block (ToolUseBlock \<lparr>name = str ''read_file'', params = [], partial = True\<rparr>)]"
  by code_simp

text \<open>
The chunk \<open><read_file>x<yz\<close> in both modes. Relaxed mode publishes an error for the
  \<open>x\<close>, and on the invalid parameter tag it drops the tool-use and puts the tag into the
  text buffer, where strict mode keeps the tool-use and fills the parameter buffer.
\<close>

theorem relaxed_mode_counterexample:
  "processChunks (newStreamingToolParser relaxedReadFileOptions) [str ''<read_file>x<yz'']
     = Some ([unexpectedXError, Block (TextBlock (str ''x<yzz'') True)],
             \<lparr> parserContext = (newParserContext relaxedReadFileOptions)\<lparr>textBuffer := str ''x<yzz''\<rparr>,
               currentState = Text \<rparr>)
   \<and> processChunks (newStreamingToolParser readFileOptions) [str ''<read_file>x<yz'']
     = Some ([unexpectedXError, Error (str ''Invalid param name: yz for tool read_file''),
              Block (ToolUseBlock \<lparr>name = str ''read_file'', params = [], partial = True\<rparr>)],
             \<lparr> parserContext =
                 (newParserContext readFileOptions)
                   \<lparr>textBuffer := str ''x'', paramValueBuffer := str ''<yzz'',
                    currentNode := Tool (str ''read_file''),
                    currentToolUse := Some \<lparr>name = str ''read_file'', params = [], partial = True\<rparr>\<rparr>,
               currentState = TextContent \<rparr>)"
  by code_simp

lemma relaxedMode_update [simp]:
  "relaxedMode (ctx\<lparr>textBuffer := a\<rparr>) = relaxedMode ctx"
  "relaxedMode (ctx\<lparr>tagBuffer := a\<rparr>) = relaxedMode ctx"
  "relaxedMode (ctx\<lparr>paramValueBuffer := a\<rparr>) = relaxedMode ctx"
  "relaxedMode (ctx\<lparr>closingTagBuffer := a\<rparr>) = relaxedMode ctx"
  "relaxedMode (ctx\<lparr>currentNode := n\<rparr>) = relaxedMode ctx"
  "relaxedMode (ctx\<lparr>currentToolUse := t\<rparr>) = relaxedMode ctx"
  "relaxedMode (ctx\<lparr>currentParamName := pn\<rparr>) = relaxedMode ctx"
  by (simp_all add: relaxedMode_def)

lemma withMode_simps [simp]:
  "textBuffer (withMode m ctx) = textBuffer ctx"
  "tagBuffer (withMode m ctx) = tagBuffer ctx"
  "paramValueBuffer (withMode m ctx) = paramValueBuffer ctx"
  "closingTagBuffer (withMode m ctx) = closingTagBuffer ctx"
  "currentNode (withMode m ctx) = currentNode ctx"
  "currentToolUse (withMode m ctx) = currentToolUse ctx"
  "currentParamName (withMode m ctx) = currentParamName ctx"
  "relaxedMode (withMode m ctx) = (m = Some True)"
  by (simp_all add: withMode_def relaxedMode_def)

lemma withMode_update [simp]:
  "withMode m (ctx\<lparr>textBuffer := a\<rparr>) = (withMode m ctx)\<lparr>textBuffer := a\<rparr>"
  "withMode m (ctx\<lparr>tagBuffer := a\<rparr>) = (withMode m ctx)\<lparr>tagBuffer := a\<rparr>"
  "withMode m (ctx\<lparr>paramValueBuffer := a\<rparr>) = (withMode m ctx)\<lparr>paramValueBuffer := a\<rparr>"
  "withMode m (ctx\<lparr>closingTagBuffer := a\<rparr>) = (withMode m ctx)\<lparr>closingTagBuffer := a\<rparr>"
  "withMode m (ctx\<lparr>currentNode := n\<rparr>) = (withMode m ctx)\<lparr>currentNode := n\<rparr>"
  "withMode m (ctx\<lparr>currentToolUse := t\<rparr>) = (withMode m ctx)\<lparr>currentToolUse := t\<rparr>"
  "withMode m (ctx\<lparr>currentParamName := pn\<rparr>) = (withMode m ctx)\<lparr>currentParamName := pn\<rparr>"
  by (simp_all add: withMode_def)

lemma withMode_helpers [simp]:
  "canContainText (withMode m ctx) = canContainText ctx"
  "findChildSchema (withMode m ctx) n = findChildSchema ctx n"
  "hasChildSchemaWithPrefix (withMode m ctx) n = hasChildSchemaWithPrefix ctx n"
  "invalidTagText (withMode m ctx) c = invalidTagText ctx c"
  "withMode m (resetParamState ctx) = resetParamState (withMode m ctx)"
  "withMode m (resetToolState ctx) = resetToolState (withMode m ctx)"
       apply (simp add: canContainText_def)
      apply (cases "currentNode ctx"; simp add: findChildSchema_def withMode_def)
     apply (cases "currentNode ctx"; simp add: hasChildSchemaWithPrefix_def withMode_def)
    apply (simp add: invalidTagText_def)
   apply (simp add: resetParamState_def)
  apply (simp add: resetToolState_def resetParamState_def)
  done

lemma withMode_storeCurrentParamValue [simp]:
  "withMode m (storeCurrentParamValue ctx) = storeCurrentParamValue (withMode m ctx)"
  by (simp add: storeCurrentParamValue_def split: option.splits)

lemma helper_update [simp]:
  "canContainText (ctx\<lparr>tagBuffer := a\<rparr>) = canContainText ctx"
  "canContainText (ctx\<lparr>closingTagBuffer := a\<rparr>) = canContainText ctx"
  "hasChildSchemaWithPrefix (ctx\<lparr>tagBuffer := a\<rparr>) n = hasChildSchemaWithPrefix ctx n"
  "invalidTagText (ctx\<lparr>tagBuffer := a\<rparr>) c = str ''<'' @ a @ units c"
  by (simp_all add: canContainText_def hasChildSchemaWithPrefix_def invalidTagText_def)

lemma relaxed_publishes:
  assumes "relaxedMode ctx" and "processChar st ctx c = Some (evs, st', ctx')"
  shows "list_all (publishedInRelaxedMode ctx) evs"
proof (cases st)
  case Text
  with assms show ?thesis
    by (auto simp: state_defs ctx_defs Let_def startsWith_def split: if_splits)
next
  case TagOpening
  with assms show ?thesis
    by (auto simp: state_defs ctx_defs Let_def startsWith_def split: if_splits)
next
  case TagName
  with assms show ?thesis
    by (auto simp: state_defs ctx_defs Let_def startsWith_def
             split: if_splits option.splits dest!: findChildSchema_Some)
next
  case TextContent
  with assms show ?thesis
    by (auto simp: state_defs ctx_defs Let_def startsWith_def split: if_splits)
next
  case ClosingTag
  with assms show ?thesis
    by (auto simp: state_defs ctx_defs Let_def startsWith_def
             split: if_splits option.splits prod.splits)
qed

lemma currentNode_helpers [simp]:
  "currentNode (resetParamState ctx) = currentNode ctx"
  "currentNode (resetToolState ctx) = currentNode ctx"
  by (simp_all add: ctx_defs)

lemma currentNode_storeCurrentParamValue [simp]:
  "currentNode (storeCurrentParamValue ctx) = currentNode ctx"
  by (simp add: storeCurrentParamValue_def split: option.splits)

lemma handleInvalidTag_relaxed:
  assumes "\<not> relaxedMode ctx" and "handleInvalidTag ctx c = (evsS, st', ctx')"
    and "\<not> list_ex isInvalidParamError evsS"
  shows "handleInvalidTag (withMode (Some True) ctx) c = ([], st', withMode (Some True) ctx')
         \<and> list_all isErrorEvent evsS"
  using assms
  by (cases "currentNode ctx")
     (auto simp: handleInvalidTag_def handleInvalidTag_fallback_def Let_def startsWith_def
                 canContainText_def)

lemma handleMismatchedClosingTag_relaxed:
  assumes "\<not> relaxedMode ctx" and "handleMismatchedClosingTag ctx = (evsS, st', ctx')"
  shows "\<exists>evsR suppressed.
           handleMismatchedClosingTag (withMode (Some True) ctx) = (evsR, st', withMode (Some True) ctx')
           \<and> evsS = evsR @ suppressed \<and> list_all isErrorEvent suppressed"
  using assms
  by (auto simp: handleMismatchedClosingTag_def Let_def split: if_splits)

lemma processClosingTag_relaxed:
  assumes "\<not> relaxedMode ctx" and "processClosingTag ctx = Some (evsS, st', ctx')"
  shows "\<exists>evsR suppressed.
           processClosingTag (withMode (Some True) ctx) = Some (evsR, st', withMode (Some True) ctx')
           \<and> evsS = evsR @ suppressed \<and> list_all isErrorEvent suppressed"
  using assms
  by (auto simp: processClosingTag_def processClosingTag_mismatch_def Let_def
           split: if_splits option.splits prod.splits)

lemma TagNameState_relaxed:
  assumes strict: "\<not> relaxedMode ctx"
    and step: "TagNameState_processChar ctx c = (evsS, st', ctx')"
    and noparam: "\<not> list_ex isInvalidParamError evsS"
  shows "\<exists>evsR suppressed.
           TagNameState_processChar (withMode (Some True) ctx) c
             = (evsR, st', withMode (Some True) ctx')
           \<and> evsS = evsR @ suppressed \<and> list_all isErrorEvent suppressed"
proof (cases "c \<noteq> ascii CHR ''>'' \<and> \<not> whitespaceTest c")
  case True
  let ?ctx1 = "ctx\<lparr>tagBuffer := tagBuffer ctx @ units c\<rparr>"
  show ?thesis
  proof (cases "hasChildSchemaWithPrefix ctx (tagBuffer ctx @ units c)")
    case True
    with \<open>c \<noteq> ascii CHR ''>'' \<and> \<not> whitespaceTest c\<close> step show ?thesis
      by (auto simp: TagNameState_processChar_def Let_def)
  next
    case False
    with \<open>c \<noteq> ascii CHR ''>'' \<and> \<not> whitespaceTest c\<close> step
    have h: "handleInvalidTag ?ctx1 c = (evsS, st', ctx')"
      by (simp add: TagNameState_processChar_def Let_def)
    from strict have "\<not> relaxedMode ?ctx1" by simp
    from handleInvalidTag_relaxed [OF this h noparam] False
      \<open>c \<noteq> ascii CHR ''>'' \<and> \<not> whitespaceTest c\<close>
    show ?thesis
      by (simp add: TagNameState_processChar_def Let_def)
  qed
next
  case False
  show ?thesis
  proof (cases "findChildSchema ctx (tagBuffer ctx)")
    case None
    with False step have h: "handleInvalidTag ctx c = (evsS, st', ctx')"
      by (auto simp: TagNameState_processChar_def)
    from handleInvalidTag_relaxed [OF strict h noparam] False None
    show ?thesis
      by (auto simp: TagNameState_processChar_def)
  next
    case (Some exactMatch)
    show ?thesis
    proof (cases "c = ascii CHR ''>''")
      case True
      with Some step have "handleValidTag ctx exactMatch = (evsS, st', ctx')"
        by (auto simp: TagNameState_processChar_def)
      with True Some show ?thesis
        by (auto simp: TagNameState_processChar_def handleValidTag_def Let_def split: if_splits)
    next
      case notfence: False
      obtain evsH where h: "handleInvalidTag ctx c = (evsH, st', ctx')"
        and evs: "evsS = Error (str ''Unexpected whitespace in parameter tag'') # evsH"
        using notfence False Some step
        by (cases "handleInvalidTag ctx c")
           (auto simp: TagNameState_processChar_def prepend_events_def)
      from noparam evs have "\<not> list_ex isInvalidParamError evsH" by simp
      from handleInvalidTag_relaxed [OF strict h this] notfence False Some evs
      show ?thesis
        by (auto simp: TagNameState_processChar_def prepend_events_def)
    qed
  qed
qed

lemma ClosingTagState_relaxed:
  assumes strict: "\<not> relaxedMode ctx"
    and step: "ClosingTagState_processChar ctx c = Some (evsS, st', ctx')"
  shows "\<exists>evsR suppressed.
           ClosingTagState_processChar (withMode (Some True) ctx) c
             = Some (evsR, st', withMode (Some True) ctx')
           \<and> evsS = evsR @ suppressed \<and> list_all isErrorEvent suppressed"
proof (cases "c = ascii CHR ''>''")
  case True
  with step have "processClosingTag ctx = Some (evsS, st', ctx')"
    by (simp add: ClosingTagState_processChar_def)
  from processClosingTag_relaxed [OF strict this] True show ?thesis
    by (simp add: ClosingTagState_processChar_def)
next
  case False
  let ?ctx1 = "ctx\<lparr>closingTagBuffer := closingTagBuffer ctx @ units c\<rparr>"
  show ?thesis
  proof (cases "take (length (closingTagBuffer ctx @ units c)) (node_name (currentNode ctx))
                  = closingTagBuffer ctx @ units c")
    case True
    with False step show ?thesis
      by (auto simp: ClosingTagState_processChar_def Let_def)
  next
    case mismatch: False
    with False step have h: "handleMismatchedClosingTag ?ctx1 = (evsS, st', ctx')"
      by (simp add: ClosingTagState_processChar_def Let_def)
    from strict have "\<not> relaxedMode ?ctx1" by simp
    from handleMismatchedClosingTag_relaxed [OF this h] False mismatch show ?thesis
      by (simp add: ClosingTagState_processChar_def Let_def)
  qed
qed

lemma relaxed_follows_strict:
  assumes "\<not> relaxedMode ctx" and "processChar st ctx c = Some (evsS, st', ctx')"
    and "\<not> list_ex isInvalidParamError evsS"
  shows "\<exists>evsR suppressed.
           processChar st (withMode (Some True) ctx) c = Some (evsR, st', withMode (Some True) ctx')
           \<and> evsS = evsR @ suppressed \<and> list_all isErrorEvent suppressed"
proof (cases st)
  case Text
  with assms show ?thesis
    by (auto simp: TextState_processChar_def Let_def split: if_splits)
next
  case TagOpening
  with assms show ?thesis
    by (auto simp: TagOpeningState_processChar_def split: if_splits)
next
  case TagName
  with assms TagNameState_relaxed [of ctx c evsS st' ctx'] show ?thesis
    by simp
next
  case TextContent
  with assms show ?thesis
    by (auto simp: TextContentState_processChar_def split: if_splits)
next
  case ClosingTag
  with assms ClosingTagState_relaxed [of ctx c evsS st' ctx'] show ?thesis
    by simp
qed

lemma handleInvalidTag_events:
  assumes "\<not> relaxedMode ctx"
  shows "fst (handleInvalidTag (withMode (Some True) ctx) c) = []"
    and "filter (publishedInRelaxedMode ctxa) (fst (handleInvalidTag ctx c)) = []"
  using assms
  by (auto simp: handleInvalidTag_def handleInvalidTag_fallback_def Let_def startsWith_def)

lemma TagNameState_events:
  assumes "\<not> relaxedMode ctx"
  shows "fst (TagNameState_processChar (withMode (Some True) ctx) c)
           = filter (publishedInRelaxedMode ctx) (fst (TagNameState_processChar ctx c))"
proof (cases "c \<noteq> ascii CHR ''>'' \<and> \<not> whitespaceTest c")
  case True
  let ?ctx1 = "ctx\<lparr>tagBuffer := tagBuffer ctx @ units c\<rparr>"
  from assms have "\<not> relaxedMode ?ctx1" by simp
  from handleInvalidTag_events(1) [OF this, where c = c]
    handleInvalidTag_events(2) [OF this, where c = c and ctxa = ctx] True show ?thesis
    by (simp add: TagNameState_processChar_def Let_def)
next
  case False
  show ?thesis
  proof (cases "findChildSchema ctx (tagBuffer ctx)")
    case None
    with handleInvalidTag_events(1) [OF assms, where c = c]
      handleInvalidTag_events(2) [OF assms, where c = c and ctxa = ctx] False show ?thesis
      by (auto simp: TagNameState_processChar_def)
  next
    case (Some exactMatch)
    show ?thesis
    proof (cases "c = ascii CHR ''>''")
      case True
      with Some show ?thesis
        by (auto simp: TagNameState_processChar_def handleValidTag_def Let_def startsWith_def
                 dest!: findChildSchema_Some)
    next
      case notfence: False
      with handleInvalidTag_events(1) [OF assms, where c = c]
        handleInvalidTag_events(2) [OF assms, where c = c and ctxa = ctx] False Some show ?thesis
        by (cases "handleInvalidTag ctx c"; cases "handleInvalidTag (withMode (Some True) ctx) c")
           (auto simp: TagNameState_processChar_def prepend_events_def)
    qed
  qed
qed

lemma ClosingTagState_events:
  assumes "\<not> relaxedMode ctx" and "ClosingTagState_processChar ctx c = Some (evsS, st', ctx')"
  shows "\<exists>stR ctxR. ClosingTagState_processChar (withMode (Some True) ctx) c
           = Some (filter (publishedInRelaxedMode ctx) evsS, stR, ctxR)"
  using assms
  by (auto simp: ClosingTagState_processChar_def processClosingTag_def
                 processClosingTag_mismatch_def handleMismatchedClosingTag_def Let_def
                 startsWith_def canContainText_def
           split: if_splits option.splits prod.splits)

lemma relaxed_events:
  assumes "\<not> relaxedMode ctx" and "processChar st ctx c = Some (evsS, st', ctx')"
  shows "\<exists>stR ctxR. processChar st (withMode (Some True) ctx) c
           = Some (filter (publishedInRelaxedMode ctx) evsS, stR, ctxR)"
proof (cases st)
  case Text
  with assms show ?thesis
    by (auto simp: TextState_processChar_def Let_def startsWith_def split: if_splits)
next
  case TagOpening
  with assms show ?thesis
    by (auto simp: TagOpeningState_processChar_def startsWith_def apostrophe_def split: if_splits)
next
  case TagName
  with assms TagNameState_events [OF assms(1), of c] show ?thesis
    by (cases "TagNameState_processChar (withMode (Some True) ctx) c") auto
next
  case TextContent
  with assms show ?thesis
    by (auto simp: TextContentState_processChar_def startsWith_def split: if_splits)
next
  case ClosingTag
  with assms ClosingTagState_events [of ctx c evsS st' ctx'] show ?thesis
    by simp
qed

text \<open>
Claim C2, as the code has it. A relaxed step publishes errors of three kinds only: an
  unexpected character where text is not allowed, whitespace in a parameter tag, and a
  mismatched closing tag, the last only when the current node accepts no text. The
  relaxed step from the context of a strict step publishes exactly the events of the
  strict step that are blocks or errors of these kinds, in the same order, and suppresses
  every other error. Whenever the strict step does not report an invalid parameter name,
  the relaxed step also enters the same state and leaves the same context (the same
  characters in the same buffers).
\<close>

theorem relaxed_mode_recovery:
  "(relaxedMode ctxR \<longrightarrow> processChar stR ctxR cR = Some (evsR, stR', ctxR')
      \<longrightarrow> list_all (publishedInRelaxedMode ctxR) evsR)
   \<and> (\<not> relaxedMode ctx \<longrightarrow> processChar st ctx c = Some (evsS, st', ctx')
      \<longrightarrow> (\<exists>stR ctxR.
             processChar st (withMode (Some True) ctx) c
               = Some (filter (publishedInRelaxedMode ctx) evsS, stR, ctxR)
             \<and> (\<not> list_ex isInvalidParamError evsS
                  \<longrightarrow> stR = st' \<and> ctxR = withMode (Some True) ctx')))"
proof (rule conjI)
  show "relaxedMode ctxR \<longrightarrow> processChar stR ctxR cR = Some (evsR, stR', ctxR')
          \<longrightarrow> list_all (publishedInRelaxedMode ctxR) evsR"
    using relaxed_publishes by blast
next
  show "\<not> relaxedMode ctx \<longrightarrow> processChar st ctx c = Some (evsS, st', ctx')
      \<longrightarrow> (\<exists>stR ctxR.
             processChar st (withMode (Some True) ctx) c
               = Some (filter (publishedInRelaxedMode ctx) evsS, stR, ctxR)
             \<and> (\<not> list_ex isInvalidParamError evsS
                  \<longrightarrow> stR = st' \<and> ctxR = withMode (Some True) ctx'))"
  proof (intro impI)
    assume strict: "\<not> relaxedMode ctx"
      and step: "processChar st ctx c = Some (evsS, st', ctx')"
    from relaxed_events [OF strict step] obtain stR ctxR
      where r: "processChar st (withMode (Some True) ctx) c
                  = Some (filter (publishedInRelaxedMode ctx) evsS, stR, ctxR)"
      by blast
    have "\<not> list_ex isInvalidParamError evsS
            \<longrightarrow> stR = st' \<and> ctxR = withMode (Some True) ctx'"
      using relaxed_follows_strict [OF strict step] r by auto
    with r show "\<exists>stR ctxR.
             processChar st (withMode (Some True) ctx) c
               = Some (filter (publishedInRelaxedMode ctx) evsS, stR, ctxR)
             \<and> (\<not> list_ex isInvalidParamError evsS
                  \<longrightarrow> stR = st' \<and> ctxR = withMode (Some True) ctx')"
      by blast
  qed
qed

theorem relaxed_mode_recovery_witness:
  "relaxedMode (insideReadFile relaxedReadFileOptions)
   \<and> processChar TextContent (insideReadFile relaxedReadFileOptions) (ascii CHR ''x'')
       = Some ([unexpectedXError], TextContent,
               (insideReadFile relaxedReadFileOptions)\<lparr>textBuffer := str ''x''\<rparr>)
   \<and> list_all (publishedInRelaxedMode (insideReadFile relaxedReadFileOptions))
        [unexpectedXError :: ToolUse event]
   \<and> processChar TagOpening (newParserContext readFileOptions) (ascii CHR '' '')
       = Some ([whitespaceAfterFenceError], Text,
               (newParserContext readFileOptions)\<lparr>textBuffer := str ''< ''\<rparr>)
   \<and> processChar TagOpening (withMode (Some True) (newParserContext readFileOptions))
        (ascii CHR '' '')
       = Some ([], Text,
               withMode (Some True) ((newParserContext readFileOptions)\<lparr>textBuffer := str ''< ''\<rparr>))
   \<and> processChar ClosingTag (insideReadFile readFileOptions) (ascii CHR ''x'')
       = Some ([mismatchedInToolError], Text,
               (newParserContext readFileOptions)\<lparr>textBuffer := str ''</x''\<rparr>)
   \<and> processChar ClosingTag (withMode (Some True) (insideReadFile readFileOptions))
        (ascii CHR ''x'')
       = Some ([mismatchedInToolError], Text,
               withMode (Some True) ((newParserContext readFileOptions)\<lparr>textBuffer := str ''</x''\<rparr>))
   \<and> processChar ClosingTag (insidePath readFileOptions) (ascii CHR ''x'')
       = Some ([mismatchedInParamError], TextContent,
               (insidePath readFileOptions)\<lparr>paramValueBuffer := str ''</x''\<rparr>)
   \<and> processChar ClosingTag (withMode (Some True) (insidePath readFileOptions))
        (ascii CHR ''x'')
       = Some ([], TextContent,
               withMode (Some True) ((insidePath readFileOptions)\<lparr>paramValueBuffer := str ''</x''\<rparr>))
   \<and> processChar TagName ((newParserContext readFileOptions)\<lparr>tagBuffer := str ''read_file''\<rparr>)
        (ascii CHR '' '')
       = Some ([whitespaceInTagError, invalidReadFileError], Text,
               (newParserContext readFileOptions)\<lparr>textBuffer := str ''<read_file ''\<rparr>)
   \<and> processChar TagName
        (withMode (Some True) ((newParserContext readFileOptions)\<lparr>tagBuffer := str ''read_file''\<rparr>))
        (ascii CHR '' '')
       = Some ([whitespaceInTagError], Text,
               withMode (Some True)
                 ((newParserContext readFileOptions)\<lparr>textBuffer := str ''<read_file ''\<rparr>))"
proof -
  note kept = relaxed_mode_recovery [THEN conjunct1, rule_format]
  note follows = relaxed_mode_recovery [THEN conjunct2, rule_format]
  have a1: "relaxedMode (insideReadFile relaxedReadFileOptions)"
    by code_simp
  have a2: "processChar TextContent (insideReadFile relaxedReadFileOptions) (ascii CHR ''x'')
       = Some ([unexpectedXError], TextContent,
               (insideReadFile relaxedReadFileOptions)\<lparr>textBuffer := str ''x''\<rparr>)"
    by code_simp
  note a3 = kept [OF a1 a2]
  have b1: "\<not> relaxedMode (newParserContext readFileOptions :: ToolUse ParserContext)"
    by code_simp
  have b2: "processChar TagOpening (newParserContext readFileOptions) (ascii CHR '' '')
       = Some ([whitespaceAfterFenceError], Text,
               (newParserContext readFileOptions)\<lparr>textBuffer := str ''< ''\<rparr>)"
    by code_simp
  have b3: "\<not> list_ex isInvalidParamError [whitespaceAfterFenceError :: ToolUse event]"
    by code_simp
  have b4: "filter (publishedInRelaxedMode (newParserContext readFileOptions))
              [whitespaceAfterFenceError :: ToolUse event] = []"
    by code_simp
  from follows [OF b1 b2] b3 b4
  have b5: "processChar TagOpening (withMode (Some True) (newParserContext readFileOptions))
        (ascii CHR '' '')
       = Some ([], Text,
               withMode (Some True) ((newParserContext readFileOptions)\<lparr>textBuffer := str ''< ''\<rparr>))"
    by auto
  have c1: "\<not> relaxedMode (insideReadFile readFileOptions)"
    by code_simp
  have c2: "processChar ClosingTag (insideReadFile readFileOptions) (ascii CHR ''x'')
       = Some ([mismatchedInToolError], Text,
               (newParserContext readFileOptions)\<lparr>textBuffer := str ''</x''\<rparr>)"
    by code_simp
  have c3: "\<not> list_ex isInvalidParamError [mismatchedInToolError :: ToolUse event]"
    by code_simp
  have c4: "filter (publishedInRelaxedMode (insideReadFile readFileOptions))
              [mismatchedInToolError] = [mismatchedInToolError]"
    by code_simp
  from follows [OF c1 c2] c3 c4
  have c5: "processChar ClosingTag (withMode (Some True) (insideReadFile readFileOptions))
        (ascii CHR ''x'')
       = Some ([mismatchedInToolError], Text,
               withMode (Some True) ((newParserContext readFileOptions)\<lparr>textBuffer := str ''</x''\<rparr>))"
    by auto
  have d1: "\<not> relaxedMode (insidePath readFileOptions)"
    by code_simp
  have d2: "processChar ClosingTag (insidePath readFileOptions) (ascii CHR ''x'')
       = Some ([mismatchedInParamError], TextContent,
               (insidePath readFileOptions)\<lparr>paramValueBuffer := str ''</x''\<rparr>)"
    by code_simp
  have d3: "\<not> list_ex isInvalidParamError [mismatchedInParamError :: ToolUse event]"
    by code_simp
  have d4: "filter (publishedInRelaxedMode (insidePath readFileOptions))
              [mismatchedInParamError] = []"
    by code_simp
  from follows [OF d1 d2] d3 d4
  have d5: "processChar ClosingTag (withMode (Some True) (insidePath readFileOptions))
        (ascii CHR ''x'')
       = Some ([], TextContent,
               withMode (Some True) ((insidePath readFileOptions)\<lparr>paramValueBuffer := str ''</x''\<rparr>))"
    by auto
  have e1: "\<not> relaxedMode ((newParserContext readFileOptions :: ToolUse ParserContext)
                               \<lparr>tagBuffer := str ''read_file''\<rparr>)"
    by code_simp
  have e2: "processChar TagName ((newParserContext readFileOptions)\<lparr>tagBuffer := str ''read_file''\<rparr>)
        (ascii CHR '' '')
       = Some ([whitespaceInTagError, invalidReadFileError], Text,
               (newParserContext readFileOptions)\<lparr>textBuffer := str ''<read_file ''\<rparr>)"
    by code_simp
  have e3: "\<not> list_ex isInvalidParamError
              [whitespaceInTagError :: ToolUse event, invalidReadFileError]"
    by code_simp
  have e4: "filter (publishedInRelaxedMode
                     ((newParserContext readFileOptions)\<lparr>tagBuffer := str ''read_file''\<rparr>))
              [whitespaceInTagError :: ToolUse event, invalidReadFileError]
            = [whitespaceInTagError]"
    by code_simp
  from follows [OF e1 e2] e3 e4
  have e5: "processChar TagName
        (withMode (Some True) ((newParserContext readFileOptions)\<lparr>tagBuffer := str ''read_file''\<rparr>))
        (ascii CHR '' '')
       = Some ([whitespaceInTagError], Text,
               withMode (Some True)
                 ((newParserContext readFileOptions)\<lparr>textBuffer := str ''<read_file ''\<rparr>))"
    by auto
  from a1 a2 a3 b2 b5 c2 c5 d2 d5 e2 e5 show ?thesis
    by blast
qed

text \<open>
Claim C3, as the code has it. A step that publishes an error appends the offending
  characters, verbatim and in the same step, to the text buffer or to the parameter
  buffer (in both modes).
\<close>

theorem error_keeps_characters:
  assumes "processChar st ctx c = Some (evs, st', ctx')"
    and "\<exists>m. Error m \<in> set evs"
  shows "\<exists>rest.
           textBuffer ctx' = textBuffer ctx @ offending st ctx c @ rest
           \<or> paramValueBuffer ctx' = paramValueBuffer ctx @ offending st ctx c @ rest"
proof (cases st)
  case Text
  with assms show ?thesis
    by (auto simp: state_defs ctx_defs Let_def split: if_splits)
next
  case TagOpening
  with assms show ?thesis
    by (auto simp: state_defs ctx_defs Let_def split: if_splits)
next
  case TagName
  with assms show ?thesis
    by (auto simp: state_defs ctx_defs Let_def invalidTagText_def
             split: if_splits option.splits dest!: findChildSchema_Some)
next
  case TextContent
  with assms show ?thesis
    by (auto simp: state_defs ctx_defs Let_def split: if_splits)
next
  case ClosingTag
  with assms show ?thesis
    by (auto simp: state_defs ctx_defs Let_def split: if_splits option.splits prod.splits)
qed


theorem error_keeps_characters_witness:
  "processChar TextContent (insideReadFile readFileOptions) (ascii CHR ''x'')
     = Some ([unexpectedXError], TextContent, (insideReadFile readFileOptions)\<lparr>textBuffer := str ''x''\<rparr>)
   \<and> offending TextContent (insideReadFile readFileOptions) (ascii CHR ''x'') = str ''x''
   \<and> textBuffer ((insideReadFile readFileOptions)\<lparr>textBuffer := str ''x''\<rparr>)
       = textBuffer (insideReadFile readFileOptions) @ str ''x''"
proof -
  have a: "processChar TextContent (insideReadFile readFileOptions) (ascii CHR ''x'')
     = Some ([unexpectedXError], TextContent, (insideReadFile readFileOptions)\<lparr>textBuffer := str ''x''\<rparr>)"
    by code_simp
  have b: "\<exists>m. Error m \<in> set [unexpectedXError :: ToolUse event]"
    by (simp add: unexpectedXError_def)
  have c: "paramValueBuffer ((insideReadFile readFileOptions)\<lparr>textBuffer := str ''x''\<rparr>) = []"
    by code_simp
  from error_keeps_characters [OF a b] c a show ?thesis
    by (auto simp: insideReadFile_def newParserContext_def)
qed

lemma pendingParamOnly_refl [simp]: "pendingParamOnly ctx ctx"
  by (simp add: pendingParamOnly_def)














lemma derefContext_sel [simp]:
  "textBuffer (derefContext s ctx) = textBuffer ctx"
  "tagBuffer (derefContext s ctx) = tagBuffer ctx"
  "paramValueBuffer (derefContext s ctx) = paramValueBuffer ctx"
  "closingTagBuffer (derefContext s ctx) = closingTagBuffer ctx"
  "currentNode (derefContext s ctx) = currentNode ctx"
  "currentToolUse (derefContext s ctx) = map_option (derefToolUse s) (currentToolUse ctx)"
  "currentParamName (derefContext s ctx) = currentParamName ctx"
  "options (derefContext s ctx) = options ctx"
  by (simp_all add: derefContext_def)

lemma derefContext_upd [simp]:
  "derefContext s (ctx\<lparr>textBuffer := a\<rparr>) = (derefContext s ctx)\<lparr>textBuffer := a\<rparr>"
  "derefContext s (ctx\<lparr>tagBuffer := a\<rparr>) = (derefContext s ctx)\<lparr>tagBuffer := a\<rparr>"
  "derefContext s (ctx\<lparr>paramValueBuffer := a\<rparr>) = (derefContext s ctx)\<lparr>paramValueBuffer := a\<rparr>"
  "derefContext s (ctx\<lparr>closingTagBuffer := a\<rparr>) = (derefContext s ctx)\<lparr>closingTagBuffer := a\<rparr>"
  "derefContext s (ctx\<lparr>currentNode := n\<rparr>) = (derefContext s ctx)\<lparr>currentNode := n\<rparr>"
  "derefContext s (ctx\<lparr>currentParamName := pn\<rparr>) = (derefContext s ctx)\<lparr>currentParamName := pn\<rparr>"
  "derefContext s (ctx\<lparr>currentToolUse := x\<rparr>)
     = (derefContext s ctx)\<lparr>currentToolUse := map_option (derefToolUse s) x\<rparr>"
  by (simp_all add: derefContext_def)

lemma derefContext_helpers [simp]:
  "relaxedMode (derefContext s ctx) = relaxedMode ctx"
  "canContainText (derefContext s ctx) = canContainText ctx"
  "findChildSchema (derefContext s ctx) n = findChildSchema ctx n"
  "hasChildSchemaWithPrefix (derefContext s ctx) n = hasChildSchemaWithPrefix ctx n"
  "invalidTagText (derefContext s ctx) c = invalidTagText ctx c"
  "derefContext s (resetParamState ctx) = resetParamState (derefContext s ctx)"
  "derefContext s (resetToolState ctx) = resetToolState (derefContext s ctx)"
  by (simp_all add: relaxedMode_def canContainText_def findChildSchema_def
                    hasChildSchemaWithPrefix_def invalidTagText_def resetParamState_def
                    resetToolState_def)

lemma workingRef_simps [simp]:
  "workingRef (ctx\<lparr>textBuffer := a\<rparr>) = workingRef ctx"
  "workingRef (ctx\<lparr>tagBuffer := a\<rparr>) = workingRef ctx"
  "workingRef (ctx\<lparr>paramValueBuffer := a\<rparr>) = workingRef ctx"
  "workingRef (ctx\<lparr>closingTagBuffer := a\<rparr>) = workingRef ctx"
  "workingRef (ctx\<lparr>currentNode := n\<rparr>) = workingRef ctx"
  "workingRef (ctx\<lparr>currentParamName := pn\<rparr>) = workingRef ctx"
  "workingRef (ctx\<lparr>currentToolUse := x\<rparr>) = map_option refParams x"
  "workingRef (resetParamState ctx) = workingRef ctx"
  "workingRef (resetToolState ctx) = None"
  by (simp_all add: workingRef_def resetParamState_def resetToolState_def)

lemma currentToolUse_reset [simp]:
  "currentToolUse (resetToolState ctx) = None"
  "currentToolUse (resetParamState ctx) = currentToolUse ctx"
  by (simp_all add: resetToolState_def resetParamState_def)

lemma stepFrame_quiet:
  "\<not> list_ex isToolUseEvent evs \<Longrightarrow> w' = None \<or> w' = w \<Longrightarrow> stepFrame s w s w' evs"
  by (auto simp: stepFrame_def)

text \<open>The methods that do not touch a map commute with reading the store.\<close>

lemma TextState_natural:
  "TextState_processChar (derefContext s ctx) c = derefStep s (TextState_processChar ctx c)
   \<and> \<not> list_ex isToolUseEvent (fst (TextState_processChar ctx c))
   \<and> workingRef (snd (snd (TextState_processChar ctx c))) = workingRef ctx"
  by (simp add: TextState_processChar_def derefStep_def Let_def)

lemma TagOpeningState_natural:
  "TagOpeningState_processChar (derefContext s ctx) c = derefStep s (TagOpeningState_processChar ctx c)
   \<and> \<not> list_ex isToolUseEvent (fst (TagOpeningState_processChar ctx c))
   \<and> workingRef (snd (snd (TagOpeningState_processChar ctx c))) = workingRef ctx"
  by (simp add: TagOpeningState_processChar_def derefStep_def)

lemma TextContentState_natural:
  "TextContentState_processChar (derefContext s ctx) c = derefStep s (TextContentState_processChar ctx c)
   \<and> \<not> list_ex isToolUseEvent (fst (TextContentState_processChar ctx c))
   \<and> workingRef (snd (snd (TextContentState_processChar ctx c))) = workingRef ctx"
  by (simp add: TextContentState_processChar_def derefStep_def)

lemma handleInvalidTag_natural:
  "handleInvalidTag (derefContext s ctx) c = derefStep s (handleInvalidTag ctx c)
   \<and> \<not> list_ex isToolUseEvent (fst (handleInvalidTag ctx c))
   \<and> (workingRef (snd (snd (handleInvalidTag ctx c))) = None
      \<or> workingRef (snd (snd (handleInvalidTag ctx c))) = workingRef ctx)"
  by (simp add: handleInvalidTag_def handleInvalidTag_fallback_def derefStep_def Let_def)

lemma handleMismatchedClosingTag_natural:
  "handleMismatchedClosingTag (derefContext s ctx) = derefStep s (handleMismatchedClosingTag ctx)
   \<and> \<not> list_ex isToolUseEvent (fst (handleMismatchedClosingTag ctx))
   \<and> (workingRef (snd (snd (handleMismatchedClosingTag ctx))) = None
      \<or> workingRef (snd (snd (handleMismatchedClosingTag ctx))) = workingRef ctx)"
  by (simp add: handleMismatchedClosingTag_def derefStep_def Let_def)

lemma processClosingTag_mismatch_natural:
  "processClosingTag_mismatch (derefContext s ctx) = derefStep s (processClosingTag_mismatch ctx)
   \<and> \<not> list_ex isToolUseEvent (fst (processClosingTag_mismatch ctx))
   \<and> (workingRef (snd (snd (processClosingTag_mismatch ctx))) = None
      \<or> workingRef (snd (snd (processClosingTag_mismatch ctx))) = workingRef ctx)"
  by (simp add: processClosingTag_mismatch_def derefStep_def Let_def)

text \<open>The four methods on the store against the four methods on values.\<close>

lemma storeCurrentParamValue_ref_sim:
  "storeCurrentParamValue (derefContext s ctx) = derefContext (storeCurrentParamValue_ref ctx s) ctx"
  "nextRef (storeCurrentParamValue_ref ctx s) = nextRef s"
  by (auto simp: storeCurrentParamValue_ref_def storeCurrentParamValue_def derefContext_def
                 derefToolUse_def split: option.splits)

lemma handleValidTag_ref_sim:
  assumes "handleValidTag_ref ctx m s = ((evs, st', ctx'), s')"
  shows "handleValidTag (derefContext s ctx) m = (map (observe s') evs, st', derefContext s' ctx')
         \<and> stepFrame s (workingRef ctx) s' (workingRef ctx') evs"
  using assms
  by (auto simp: handleValidTag_ref_def handleValidTag_def Let_def allocate_def stepFrame_def
                 derefToolUse_def derefContext_def workingRef_def
           split: if_splits)

lemma TagNameState_ref_sim:
  assumes "TagNameState_processChar_ref ctx c s = ((evs, st', ctx'), s')"
  shows "TagNameState_processChar (derefContext s ctx) c
           = (map (observe s') evs, st', derefContext s' ctx')
         \<and> stepFrame s (workingRef ctx) s' (workingRef ctx') evs"
proof (cases "c \<noteq> ascii CHR ''>'' \<and> \<not> whitespaceTest c")
  case True
  let ?ctx1 = "ctx\<lparr>tagBuffer := tagBuffer ctx @ units c\<rparr>"
  show ?thesis
  proof (cases "hasChildSchemaWithPrefix ctx (tagBuffer ctx @ units c)")
    case True
    with \<open>c \<noteq> ascii CHR ''>'' \<and> \<not> whitespaceTest c\<close> assms show ?thesis
      by (auto simp: TagNameState_processChar_ref_def TagNameState_processChar_def Let_def
                     stepFrame_def)
  next
    case False
    with \<open>c \<noteq> ascii CHR ''>'' \<and> \<not> whitespaceTest c\<close> assms
    have "handleInvalidTag ?ctx1 c = (evs, st', ctx')" and "s' = s"
      by (auto simp: TagNameState_processChar_ref_def Let_def)
    with handleInvalidTag_natural [of s ?ctx1 c] False \<open>c \<noteq> ascii CHR ''>'' \<and> \<not> whitespaceTest c\<close>
    show ?thesis
      by (auto simp: TagNameState_processChar_def Let_def derefStep_def
               intro!: stepFrame_quiet)
  qed
next
  case False
  show ?thesis
  proof (cases "findChildSchema ctx (tagBuffer ctx)")
    case None
    with False assms have "handleInvalidTag ctx c = (evs, st', ctx')" and "s' = s"
      by (auto simp: TagNameState_processChar_ref_def)
    with handleInvalidTag_natural [of s ctx c] False None show ?thesis
      by (auto simp: TagNameState_processChar_def derefStep_def intro!: stepFrame_quiet)
  next
    case (Some exactMatch)
    show ?thesis
    proof (cases "c = ascii CHR ''>''")
      case True
      with Some assms have "handleValidTag_ref ctx exactMatch s = ((evs, st', ctx'), s')"
        by (auto simp: TagNameState_processChar_ref_def)
      from handleValidTag_ref_sim [OF this] True Some show ?thesis
        by (auto simp: TagNameState_processChar_def)
    next
      case notfence: False
      obtain evsH where h: "handleInvalidTag ctx c = (evsH, st', ctx')"
        and evs: "evs = Error (str ''Unexpected whitespace in parameter tag'') # evsH" and "s' = s"
        using notfence False Some assms
        by (cases "handleInvalidTag ctx c")
           (auto simp: TagNameState_processChar_ref_def prepend_events_def)
      with handleInvalidTag_natural [of s ctx c] notfence False Some show ?thesis
        by (auto simp: TagNameState_processChar_def derefStep_def prepend_events_def
                 intro!: stepFrame_quiet)
    qed
  qed
qed

lemma processClosingTag_ref_sim:
  "case processClosingTag_ref ctx s of
     None \<Rightarrow> processClosingTag (derefContext s ctx) = None
   | Some ((evs, st', ctx'), s') \<Rightarrow>
       processClosingTag (derefContext s ctx) = Some (map (observe s') evs, st', derefContext s' ctx')
       \<and> stepFrame s (workingRef ctx) s' (workingRef ctx') evs"
proof (cases "node_name (currentNode ctx) = closingTagBuffer ctx")
  case False
  with processClosingTag_mismatch_natural [of s ctx] show ?thesis
    by (cases "processClosingTag_mismatch ctx")
       (auto simp: processClosingTag_ref_def processClosingTag_def derefStep_def
             intro!: stepFrame_quiet)
next
  case True
  show ?thesis
  proof (cases "currentParamName ctx = Some (closingTagBuffer ctx)")
    case param: True
    with True show ?thesis
      by (cases "currentNode ctx")
         (auto simp: processClosingTag_ref_def processClosingTag_def Let_def stepFrame_def
                     storeCurrentParamValue_ref_sim)
  next
    case False
    with True show ?thesis
      by (cases "currentNode ctx"; cases "currentToolUse ctx")
         (auto simp: processClosingTag_ref_def processClosingTag_def Let_def stepFrame_def
                     derefToolUse_def workingRef_def)
  qed
qed

lemma ClosingTagState_ref_sim:
  "case ClosingTagState_processChar_ref ctx c s of
     None \<Rightarrow> ClosingTagState_processChar (derefContext s ctx) c = None
   | Some ((evs, st', ctx'), s') \<Rightarrow>
       ClosingTagState_processChar (derefContext s ctx) c
         = Some (map (observe s') evs, st', derefContext s' ctx')
       \<and> stepFrame s (workingRef ctx) s' (workingRef ctx') evs"
proof (cases "c = ascii CHR ''>''")
  case True
  with processClosingTag_ref_sim [where ctx = ctx and s = s] show ?thesis
    by (cases "processClosingTag_ref ctx s")
       (auto simp: ClosingTagState_processChar_ref_def ClosingTagState_processChar_def)
next
  case False
  let ?ctx1 = "ctx\<lparr>closingTagBuffer := closingTagBuffer ctx @ units c\<rparr>"
  from False handleMismatchedClosingTag_natural [of s ?ctx1] show ?thesis
    by (cases "handleMismatchedClosingTag ?ctx1")
       (auto simp: ClosingTagState_processChar_ref_def ClosingTagState_processChar_def Let_def
                   derefStep_def stepFrame_def)
qed

lemma processChar_ref_sim:
  "case processChar_ref st ctx c s of
     None \<Rightarrow> processChar st (derefContext s ctx) c = None
   | Some ((evs, st', ctx'), s') \<Rightarrow>
       processChar st (derefContext s ctx) c = Some (map (observe s') evs, st', derefContext s' ctx')
       \<and> stepFrame s (workingRef ctx) s' (workingRef ctx') evs"
proof (cases st)
  case Text
  with TextState_natural [of s ctx c] show ?thesis
    by (cases "TextState_processChar ctx c") (auto simp: derefStep_def intro!: stepFrame_quiet)
next
  case TagOpening
  with TagOpeningState_natural [of s ctx c] show ?thesis
    by (cases "TagOpeningState_processChar ctx c") (auto simp: derefStep_def intro!: stepFrame_quiet)
next
  case TagName
  obtain evs st' ctx' s' where h: "TagNameState_processChar_ref ctx c s = ((evs, st', ctx'), s')"
    by (metis prod.exhaust)
  from TagNameState_ref_sim [OF h] h TagName show ?thesis
    by simp
next
  case TextContent
  with TextContentState_natural [of s ctx c] show ?thesis
    by (cases "TextContentState_processChar ctx c") (auto simp: derefStep_def intro!: stepFrame_quiet)
next
  case ClosingTag
  with ClosingTagState_ref_sim [where ctx = ctx and c = c and s = s] show ?thesis
    by (cases "ClosingTagState_processChar_ref ctx c s") auto
qed

lemma emitPartialAtChunkEnd_ref_sim:
  assumes "\<forall>w. workingRef (parserContext p) = Some w \<longrightarrow> w < nextRef s"
  shows "case emitPartialAtChunkEnd_ref p s of
           (evs, s') \<Rightarrow>
             emitPartialAtChunkEnd (derefParser s p) = (map (observe s') evs, derefParser s' p)
             \<and> stepFrame s (workingRef (parserContext p)) s' (workingRef (parserContext p)) evs"
proof (cases "currentState p = Text \<and> textBuffer (parserContext p) \<noteq> []")
  case True
  then show ?thesis
    by (auto simp: emitPartialAtChunkEnd_ref_def emitPartialAtChunkEnd_def derefParser_def Let_def
                   stepFrame_def)
next
  case False
  show ?thesis
  proof (cases "currentToolUse (parserContext p)")
    case None
    with False show ?thesis
      by (auto simp: emitPartialAtChunkEnd_ref_def emitPartialAtChunkEnd_def derefParser_def
                     Let_def stepFrame_def)
  next
    case (Some tu)
    let ?ctx = "parserContext p"
    let ?cond = "currentState p = TextContent \<and> currentNode ?ctx \<noteq> Root"
    obtain s1 where s1: "(if ?cond then storeCurrentParamValue_ref ?ctx s else s) = s1"
      by simp
    have n1: "nextRef s1 = nextRef s"
      using s1 by (auto simp: storeCurrentParamValue_ref_sim split: if_splits)
    have d1: "(if ?cond then storeCurrentParamValue (derefContext s ?ctx) else derefContext s ?ctx)
                = derefContext s1 ?ctx"
      using s1 by (auto simp: storeCurrentParamValue_ref_sim split: if_splits)
    from assms Some have w: "refParams tu < nextRef s"
      by (simp add: workingRef_def)
    obtain s2 where s2: "s2 = snd (allocate (objects s1 (refParams tu)) s1)"
      by simp
    from w n1 Some have d2: "derefContext s2 ?ctx = derefContext s1 ?ctx"
      by (simp add: s2 derefContext_def derefToolUse_def allocate_def)
    have ev: "derefToolUse s2 \<lparr>refName = refName tu, refParams = nextRef s, refPartial = True\<rparr>
                = \<lparr>name = refName tu, params = objects s1 (refParams tu), partial = True\<rparr>"
      using n1 by (simp add: s2 derefToolUse_def allocate_def)
    have r: "emitPartialAtChunkEnd_ref p s
               = ([Block (ToolUseBlock \<lparr>refName = refName tu, refParams = nextRef s, refPartial = True\<rparr>)],
                  s2)"
      using False Some n1 s1
      by (simp add: emitPartialAtChunkEnd_ref_def Let_def allocate_def s2 del: if_split)
    have c1: "currentToolUse (derefContext s1 ?ctx) = Some (derefToolUse s1 tu)"
      using Some by simp
    have a: "emitPartialAtChunkEnd (derefParser s p)
               = ([Block (ToolUseBlock \<lparr>name = refName tu, params = objects s1 (refParams tu),
                                          partial = True\<rparr>)],
                  derefParser s2 p)"
      using False Some c1
      by (simp add: emitPartialAtChunkEnd_def derefParser_def Let_def d1 d2 derefToolUse_def
               del: if_split)
    have f: "stepFrame s (workingRef ?ctx) s2 (workingRef ?ctx)
               [Block (ToolUseBlock \<lparr>refName = refName tu, refParams = nextRef s, refPartial = True\<rparr>)]"
      using n1 by (simp add: s2 stepFrame_def allocate_def)
    from r a f ev show ?thesis by simp
  qed
qed

subsection \<open>Delivery to the subscriber\<close>

lemma refsOf_append: "refsOf (a @ b) = refsOf a \<union> refsOf b"
  by (induction a rule: refsOf.induct) auto

lemma quiet_event:
  assumes "\<not> isToolUseEvent ev"
  shows "refsOf (blocksOf ev) = {}" and "observe s ev = observe s' ev"
  using assms by (cases ev rule: isToolUseEvent.cases; simp)+

lemma subscriber_deref:
  assumes "mutatesOnlyReceived k" and "\<forall>w. workingRef ctx = Some w \<longrightarrow> w \<notin> refsOf rcv"
  shows "derefContext (k rcv s) ctx = derefContext s ctx"
proof (cases "currentToolUse ctx")
  case None
  then show ?thesis by (simp add: derefContext_def)
next
  case (Some tu)
  with assms(2) have "refParams tu \<notin> refsOf rcv" by (simp add: workingRef_def)
  with assms(1) have "objects (k rcv s) (refParams tu) = objects s (refParams tu)"
    by (simp add: mutatesOnlyReceived_def)
  with Some show ?thesis by (simp add: derefContext_def derefToolUse_def)
qed

lemma subscriber_between:
  assumes "mutatesOnlyReceived k" and "isolated r"
  shows "isolated (r\<lparr>store := k (received r) (store r)\<rparr>)"
    and "derefParser (k (received r) (store r)) (parser r) = derefParser (store r) (parser r)"
proof -
  from assms show "isolated (r\<lparr>store := k (received r) (store r)\<rparr>)"
    by (simp add: isolated_def mutatesOnlyReceived_def)
  from assms(2) have "\<forall>w. workingRef (parserContext (parser r)) = Some w \<longrightarrow> w \<notin> refsOf (received r)"
    by (simp add: isolated_def)
  from subscriber_deref [OF assms(1) this]
  show "derefParser (k (received r) (store r)) (parser r) = derefParser (store r) (parser r)"
    by (simp add: derefParser_def)
qed

lemma deliver_quiet:
  assumes "mutatesOnlyReceived k" and "isolated r" and "\<not> isToolUseEvent ev"
  shows "isolated (deliver k r ev) \<and> parser (deliver k r ev) = parser r
         \<and> derefParser (store (deliver k r ev)) (parser r) = derefParser (store r) (parser r)
         \<and> seen (deliver k r ev) = seen r @ [observe s0 ev]"
proof -
  from assms(3) have rcv: "refsOf (received r @ blocksOf ev) = refsOf (received r)"
    by (simp add: refsOf_append quiet_event(1))
  let ?r1 = "r\<lparr>received := received r @ blocksOf ev\<rparr>"
  from assms(2) rcv have iso1: "isolated ?r1"
    by (simp add: isolated_def)
  from subscriber_between [OF assms(1) iso1] quiet_event(2) [OF assms(3), of "store r" s0]
  show ?thesis
    by (simp add: deliver_def Let_def isolated_def)
qed

lemma deliverAll_quiet:
  assumes "mutatesOnlyReceived k" and "isolated r" and "\<not> list_ex isToolUseEvent evs"
  shows "isolated (deliverAll k r evs) \<and> parser (deliverAll k r evs) = parser r
         \<and> derefParser (store (deliverAll k r evs)) (parser r) = derefParser (store r) (parser r)
         \<and> seen (deliverAll k r evs) = seen r @ map (observe s0) evs"
  using assms(2,3)
proof (induction evs arbitrary: r)
  case Nil
  then show ?case by (simp add: deliverAll_def)
next
  case (Cons ev evs)
  from Cons.prems have q: "\<not> isToolUseEvent ev" and qs: "\<not> list_ex isToolUseEvent evs"
    by simp_all
  from deliver_quiet [OF assms(1) Cons.prems(1) q, of s0]
  have 1: "isolated (deliver k r ev)" and 2: "parser (deliver k r ev) = parser r"
    and 3: "derefParser (store (deliver k r ev)) (parser r) = derefParser (store r) (parser r)"
    and 4: "seen (deliver k r ev) = seen r @ [observe s0 ev]"
    by simp_all
  from Cons.IH [OF 1 qs] 2 3 4 show ?case
    by (simp add: deliverAll_def)
qed

lemma deliver_tool:
  assumes "mutatesOnlyReceived k" and "isolated r" and "refParams tu < nextRef (store r)"
    and "workingRef (parserContext (parser r)) \<noteq> Some (refParams tu)"
  shows "isolated (deliver k r (Block (ToolUseBlock tu)))
         \<and> parser (deliver k r (Block (ToolUseBlock tu))) = parser r
         \<and> derefParser (store (deliver k r (Block (ToolUseBlock tu)))) (parser r)
             = derefParser (store r) (parser r)
         \<and> seen (deliver k r (Block (ToolUseBlock tu)))
             = seen r @ [observe (store r) (Block (ToolUseBlock tu))]"
proof -
  let ?r1 = "r\<lparr>received := received r @ [ToolUseBlock tu]\<rparr>"
  from assms(2,3,4) have iso1: "isolated ?r1"
    by (auto simp: isolated_def refsOf_append)
  from subscriber_between [OF assms(1) iso1] show ?thesis
    by (simp add: deliver_def Let_def isolated_def)
qed

lemma delivery:
  assumes well: "mutatesOnlyReceived k" and iso: "isolated r"
    and frame: "stepFrame (store r) (workingRef (parserContext (parser r))) s'
                  (workingRef (parserContext p')) evs"
  shows "isolated (deliverAll k (r\<lparr>parser := p', store := s'\<rparr>) evs)
         \<and> parser (deliverAll k (r\<lparr>parser := p', store := s'\<rparr>) evs) = p'
         \<and> derefParser (store (deliverAll k (r\<lparr>parser := p', store := s'\<rparr>) evs)) p'
             = derefParser s' p'
         \<and> seen (deliverAll k (r\<lparr>parser := p', store := s'\<rparr>) evs)
             = seen r @ map (observe s') evs"
proof -
  let ?r0 = "r\<lparr>parser := p', store := s'\<rparr>"
  from iso have a: "\<And>x. x \<in> refsOf (received r) \<Longrightarrow> x < nextRef (store r)"
    and b: "\<And>w. workingRef (parserContext (parser r)) = Some w
              \<Longrightarrow> w < nextRef (store r) \<and> w \<notin> refsOf (received r)"
    by (simp_all add: isolated_def)
  from frame have mono: "nextRef (store r) \<le> nextRef s'"
    and w': "workingRef (parserContext p') = None
             \<or> workingRef (parserContext p') = workingRef (parserContext (parser r))
             \<or> (workingRef (parserContext p') = Some (nextRef (store r))
                \<and> nextRef (store r) < nextRef s')"
    by (simp_all add: stepFrame_def)
  have iso0: "isolated ?r0"
    unfolding isolated_def
  proof (intro conjI ballI allI impI)
    fix x assume "x \<in> refsOf (received ?r0)"
    with a [of x] mono show "x < nextRef (store ?r0)" by simp
  next
    fix w assume "workingRef (parserContext (parser ?r0)) = Some w"
    with w' b [of w] mono show "w < nextRef (store ?r0)" by auto
  next
    fix w assume "workingRef (parserContext (parser ?r0)) = Some w"
    with w' b [of w] a [of w] show "w \<notin> refsOf (received ?r0)" by auto
  qed
  show ?thesis
  proof (cases "list_ex isToolUseEvent evs")
    case False
    from deliverAll_quiet [OF well iso0 False, of s'] show ?thesis by simp
  next
    case True
    with frame obtain tu where evs: "evs = [Block (ToolUseBlock tu)]"
      and which: "(workingRef (parserContext (parser r)) = Some (refParams tu)
                    \<and> workingRef (parserContext p') = None)
                  \<or> (refParams tu = nextRef (store r) \<and> nextRef (store r) < nextRef s'
                     \<and> workingRef (parserContext p') = workingRef (parserContext (parser r)))"
      and mono: "nextRef (store r) \<le> nextRef s'"
      by (auto simp: stepFrame_def)
    from which mono b [of "refParams tu"] have x: "refParams tu < nextRef (store ?r0)"
      and nw: "workingRef (parserContext (parser ?r0)) \<noteq> Some (refParams tu)"
      by auto
    from deliver_tool [OF well iso0 x nw] evs show ?thesis
      by (simp add: deliverAll_def)
  qed
qed

subsection \<open>A session with a subscriber publishes what the parser alone publishes\<close>

lemma isolated_working:
  "isolated r \<Longrightarrow> \<forall>w. workingRef (parserContext (parser r)) = Some w \<longrightarrow> w < nextRef (store r)"
  by (simp add: isolated_def)

lemma processChar_run_sim:
  assumes well: "mutatesOnlyReceived k" and iso: "isolated r"
    and pure: "processChar (currentState (parser r)) (derefContext (store r) (parserContext (parser r))) c
                 = Some (evs, st', ctx')"
  shows "\<exists>r'. processChar_run k r c = Some r' \<and> isolated r'
              \<and> derefParser (store r') (parser r') = \<lparr>parserContext = ctx', currentState = st'\<rparr>
              \<and> seen r' = seen r @ evs"
proof -
  let ?st = "currentState (parser r)" and ?ctx = "parserContext (parser r)"
  from processChar_ref_sim [where st = ?st and ctx = ?ctx and c = c and s = "store r"] pure
  obtain evsR ctxR s'
    where ref: "processChar_ref ?st ?ctx c (store r) = Some ((evsR, st', ctxR), s')"
      and evs: "evs = map (observe s') evsR" and ctx': "ctx' = derefContext s' ctxR"
      and frame: "stepFrame (store r) (workingRef ?ctx) s' (workingRef ctxR) evsR"
    by (cases "processChar_ref ?st ?ctx c (store r)") auto
  let ?p' = "\<lparr>parserContext = ctxR, currentState = st'\<rparr>"
  from frame have "stepFrame (store r) (workingRef ?ctx) s' (workingRef (parserContext ?p')) evsR"
    by simp
  from delivery [OF well iso this] ref evs ctx' show ?thesis
    by (simp add: processChar_run_def derefParser_def)
qed

lemma processChars_run_sim:
  assumes well: "mutatesOnlyReceived k"
  shows "isolated r \<Longrightarrow> processChars (derefParser (store r) (parser r)) s = Some (evs, p')
         \<Longrightarrow> \<exists>r'. processChars_run k r s = Some r' \<and> isolated r'
                   \<and> derefParser (store r') (parser r') = p' \<and> seen r' = seen r @ evs"
proof (induction s arbitrary: r evs)
  case Nil
  then show ?case by simp
next
  case (Cons c cs)
  from Cons.prems(2) obtain e st ctx e'
    where step: "processChar (currentState (parser r))
                   (derefContext (store r) (parserContext (parser r))) c = Some (e, st, ctx)"
      and rest: "processChars \<lparr>parserContext = ctx, currentState = st\<rparr> cs = Some (e', p')"
      and evs: "evs = e @ e'"
    by (auto simp: derefParser_def split: option.splits prod.splits)
  from processChar_run_sim [OF well Cons.prems(1) step] obtain r1
    where 1: "processChar_run k r c = Some r1" and iso1: "isolated r1"
      and d1: "derefParser (store r1) (parser r1) = \<lparr>parserContext = ctx, currentState = st\<rparr>"
      and s1: "seen r1 = seen r @ e"
    by blast
  from Cons.IH [OF iso1, of e'] rest d1 obtain r'
    where "processChars_run k r1 cs = Some r'" "isolated r'"
      "derefParser (store r') (parser r') = p'" "seen r' = seen r1 @ e'"
    by auto
  with 1 s1 evs show ?case by simp
qed

lemma processChunk_run_sim:
  assumes well: "mutatesOnlyReceived k" and iso: "isolated r"
    and pure: "processChunk (derefParser (store r) (parser r)) chunk = Some (evs, p')"
  shows "\<exists>r'. processChunk_run k r chunk = Some r' \<and> isolated r'
              \<and> derefParser (store r') (parser r') = p' \<and> seen r' = seen r @ evs"
proof -
  from pure obtain e1 p1 e2
    where chars: "processChars (derefParser (store r) (parser r)) (codePoints chunk) = Some (e1, p1)"
      and part: "emitPartialAtChunkEnd p1 = (e2, p')" and evs: "evs = e1 @ e2"
    by (auto simp: processChunk_def split: option.splits prod.splits)
  from processChars_run_sim [OF well iso chars] obtain r1
    where 1: "processChars_run k r (codePoints chunk) = Some r1" and iso1: "isolated r1"
      and d1: "derefParser (store r1) (parser r1) = p1" and s1: "seen r1 = seen r @ e1"
    by blast
  obtain evsR s' where ref: "emitPartialAtChunkEnd_ref (parser r1) (store r1) = (evsR, s')"
    by force
  from emitPartialAtChunkEnd_ref_sim [OF isolated_working [OF iso1]] ref d1 part
  have e2: "e2 = map (observe s') evsR" and p': "p' = derefParser s' (parser r1)"
    and frame: "stepFrame (store r1) (workingRef (parserContext (parser r1))) s'
                  (workingRef (parserContext (parser r1))) evsR"
    by simp_all
  from delivery [OF well iso1 frame] have
    "isolated (deliverAll k (r1\<lparr>store := s'\<rparr>) evsR)
     \<and> parser (deliverAll k (r1\<lparr>store := s'\<rparr>) evsR) = parser r1
     \<and> derefParser (store (deliverAll k (r1\<lparr>store := s'\<rparr>) evsR)) (parser r1)
         = derefParser s' (parser r1)
     \<and> seen (deliverAll k (r1\<lparr>store := s'\<rparr>) evsR) = seen r1 @ map (observe s') evsR"
    by simp
  with 1 ref e2 p' s1 evs show ?thesis
    by (simp add: processChunk_run_def)
qed

lemma processChunks_run_sim:
  assumes well: "mutatesOnlyReceived k"
  shows "isolated r \<Longrightarrow> processChunks (derefParser (store r) (parser r)) chunks = Some (evs, p')
         \<Longrightarrow> \<exists>r'. processChunks_run k r chunks = Some r' \<and> isolated r'
                   \<and> derefParser (store r') (parser r') = p' \<and> seen r' = seen r @ evs"
proof (induction chunks arbitrary: r evs)
  case Nil
  then show ?case by simp
next
  case (Cons chunk chunks)
  let ?r0 = "r\<lparr>store := k (received r) (store r)\<rparr>"
  from subscriber_between [OF well Cons.prems(1)]
  have iso0: "isolated ?r0"
    and d0: "derefParser (store ?r0) (parser ?r0) = derefParser (store r) (parser r)"
    by simp_all
  from Cons.prems(2) obtain e1 p1 e2
    where one: "processChunk (derefParser (store r) (parser r)) chunk = Some (e1, p1)"
      and rest: "processChunks p1 chunks = Some (e2, p')" and evs: "evs = e1 @ e2"
    by (auto split: option.splits prod.splits)
  from one d0 have "processChunk (derefParser (store ?r0) (parser ?r0)) chunk = Some (e1, p1)"
    by simp
  from processChunk_run_sim [OF well iso0 this] obtain r1
    where 1: "processChunk_run k ?r0 chunk = Some r1" and iso1: "isolated r1"
      and d1: "derefParser (store r1) (parser r1) = p1" and s1: "seen r1 = seen r @ e1"
    by auto
  from Cons.IH [OF iso1, of e2] rest d1 obtain r'
    where "processChunks_run k r1 chunks = Some r'" "isolated r'"
      "derefParser (store r') (parser r') = p'" "seen r' = seen r1 @ e2"
    by auto
  with 1 s1 evs show ?case by simp
qed

lemma finalize_natural:
  "fst (finalize (derefParser s p)) = map (observe s0) (fst (finalize p))
   \<and> \<not> list_ex isToolUseEvent (fst (finalize p))
   \<and> workingRef (parserContext (snd (finalize p))) = None"
  by (simp add: finalize_def derefParser_def Let_def)

lemma finalize_run_sim:
  assumes well: "mutatesOnlyReceived k" and iso: "isolated r"
  shows "seen (finalize_run k r) = seen r @ fst (finalize (derefParser (store r) (parser r)))"
proof -
  let ?r0 = "r\<lparr>store := k (received r) (store r)\<rparr>"
  obtain evs p where f: "finalize (parser r) = (evs, p)" by force
  from subscriber_between(1) [OF well iso] have iso0: "isolated ?r0" .
  from finalize_natural [of "store r" "parser r" "store ?r0"] f
  have quiet: "\<not> list_ex isToolUseEvent evs" and none: "workingRef (parserContext p) = None"
    and ev: "fst (finalize (derefParser (store r) (parser r))) = map (observe (store ?r0)) evs"
    by simp_all
  from quiet none
  have "stepFrame (store ?r0) (workingRef (parserContext (parser ?r0))) (store ?r0)
          (workingRef (parserContext p)) evs"
    by (simp add: stepFrame_def)
  from delivery [OF well iso0 this] f ev show ?thesis
    by (simp add: finalize_run_def)
qed

lemma newRun_sim:
  "isolated (newRun opts)"
  "derefParser (store (newRun opts)) (parser (newRun opts)) = newStreamingToolParser opts"
  by (simp_all add: isolated_def newRun_def newStreamingToolParser_def newParserContext_def
                    workingRef_def derefParser_def derefContext_def)

lemma scribbler_well: "mutatesOnlyReceived scribbler"
  by (simp add: mutatesOnlyReceived_def scribbler_def)

lemma snapshot_is_fresh_copy:
  assumes "\<forall>w. workingRef (parserContext p) = Some w \<longrightarrow> w < nextRef s"
    and "Block (ToolUseBlock tu) \<in> set (fst (emitPartialAtChunkEnd_ref p s))"
  shows "refPartial tu \<and> refParams tu = nextRef s
         \<and> workingRef (parserContext p) \<noteq> Some (refParams tu)
         \<and> (\<exists>w. workingRef (parserContext p) = Some w
                \<and> objects (snd (emitPartialAtChunkEnd_ref p s)) (refParams tu)
                    = objects (snd (emitPartialAtChunkEnd_ref p s)) w)"
proof (cases "currentToolUse (parserContext p)")
  case None
  with assms(2) show ?thesis
    by (auto simp: emitPartialAtChunkEnd_ref_def Let_def split: if_splits)
next
  case (Some cur)
  with assms(1) have w: "refParams cur < nextRef s" by (simp add: workingRef_def)
  have n: "nextRef (storeCurrentParamValue_ref (parserContext p) s) = nextRef s"
    by (simp add: storeCurrentParamValue_ref_sim)
  from assms(2) Some w n show ?thesis
    by (auto simp: emitPartialAtChunkEnd_ref_def Let_def allocate_def workingRef_def
             split: if_splits)
qed

text \<open>
Claim C7. The parameter maps are objects in a store, and a subscriber may, after every
  event and between two chunks, write anything into the maps of the blocks it has
  received. Then a session publishes, event for event, what the parser publishes on its
  own (each block read when it is published, partial or final, up to and including
  \<open>finalize\<close>), and the parser's working map is never one of the maps received. The map
  of a partial snapshot at a chunk end is a new object, distinct from the working map,
  with the content of the working map.
\<close>

theorem param_map_isolation:
  "(mutatesOnlyReceived k
      \<longrightarrow> (\<exists>evs p r.
             processChunks (newStreamingToolParser opts) chunks = Some (evs, p)
             \<and> processChunks_run k (newRun opts) chunks = Some r
             \<and> seen r = evs
             \<and> seen (finalize_run k r) = evs @ fst (finalize p)
             \<and> isolated r))
   \<and> ((\<forall>w. workingRef (parserContext p0) = Some w \<longrightarrow> w < nextRef s0)
      \<longrightarrow> Block (ToolUseBlock tu) \<in> set (fst (emitPartialAtChunkEnd_ref p0 s0))
      \<longrightarrow> refPartial tu \<and> refParams tu = nextRef s0
          \<and> workingRef (parserContext p0) \<noteq> Some (refParams tu)
          \<and> (\<exists>w. workingRef (parserContext p0) = Some w
                 \<and> objects (snd (emitPartialAtChunkEnd_ref p0 s0)) (refParams tu)
                     = objects (snd (emitPartialAtChunkEnd_ref p0 s0)) w))"
proof (rule conjI)
  show "mutatesOnlyReceived k
      \<longrightarrow> (\<exists>evs p r.
             processChunks (newStreamingToolParser opts) chunks = Some (evs, p)
             \<and> processChunks_run k (newRun opts) chunks = Some r
             \<and> seen r = evs
             \<and> seen (finalize_run k r) = evs @ fst (finalize p)
             \<and> isolated r)"
  proof (intro impI)
    assume well: "mutatesOnlyReceived k"
    obtain evs p where pure: "processChunks (newStreamingToolParser opts) chunks = Some (evs, p)"
      using consistent_processChunks [OF consistent_new] by blast
    from pure newRun_sim(2) [of opts]
    have "processChunks (derefParser (store (newRun opts)) (parser (newRun opts))) chunks
            = Some (evs, p)"
      by simp
    from processChunks_run_sim [OF well newRun_sim(1) this] obtain r
      where 1: "processChunks_run k (newRun opts) chunks = Some r" and iso: "isolated r"
        and d: "derefParser (store r) (parser r) = p" and s: "seen r = seen (newRun opts) @ evs"
      by blast
    from s have "seen r = evs" by (simp add: newRun_def)
    moreover from finalize_run_sim [OF well iso] d this
    have "seen (finalize_run k r) = evs @ fst (finalize p)" by simp
    ultimately show "\<exists>evs p r.
             processChunks (newStreamingToolParser opts) chunks = Some (evs, p)
             \<and> processChunks_run k (newRun opts) chunks = Some r
             \<and> seen r = evs
             \<and> seen (finalize_run k r) = evs @ fst (finalize p)
             \<and> isolated r"
      using 1 iso pure by blast
  qed
next
  show "(\<forall>w. workingRef (parserContext p0) = Some w \<longrightarrow> w < nextRef s0)
      \<longrightarrow> Block (ToolUseBlock tu) \<in> set (fst (emitPartialAtChunkEnd_ref p0 s0))
      \<longrightarrow> refPartial tu \<and> refParams tu = nextRef s0
          \<and> workingRef (parserContext p0) \<noteq> Some (refParams tu)
          \<and> (\<exists>w. workingRef (parserContext p0) = Some w
                 \<and> objects (snd (emitPartialAtChunkEnd_ref p0 s0)) (refParams tu)
                     = objects (snd (emitPartialAtChunkEnd_ref p0 s0)) w)"
    using snapshot_is_fresh_copy [of p0 s0 tu] by blast
qed

theorem param_map_isolation_witness:
  "mutatesOnlyReceived scribbler
   \<and> eventsOf readFileOptions splitPathChunks
       = Some [Block (ToolUseBlock \<lparr>name = str ''read_file'', params = [(str ''path'', str ''a'')], partial = True\<rparr>),
               Block (ToolUseBlock \<lparr>name = str ''read_file'', params = [(str ''path'', str ''ab'')], partial = False\<rparr>)]
   \<and> map_option seen (processChunks_run scribbler (newRun readFileOptions) splitPathChunks)
       = Some [Block (ToolUseBlock \<lparr>name = str ''read_file'', params = [(str ''path'', str ''a'')], partial = True\<rparr>),
               Block (ToolUseBlock \<lparr>name = str ''read_file'', params = [(str ''path'', str ''ab'')], partial = False\<rparr>)]
   \<and> map_option (mapAt 1) (processChunks_run scribbler (newRun readFileOptions) [str ''<read_file><path>a''])
       = Some [(str ''path'', str ''overwritten'')]
   \<and> fst (emitPartialAtChunkEnd_ref openPathParser openPathStore)
       = [Block (ToolUseBlock \<lparr>refName = str ''read_file'', refParams = 1, refPartial = True\<rparr>)]
   \<and> workingRef (parserContext openPathParser) = Some 0
   \<and> objects (snd (emitPartialAtChunkEnd_ref openPathParser openPathStore)) 1 = [(str ''path'', str ''a'')]
   \<and> objects (snd (emitPartialAtChunkEnd_ref openPathParser openPathStore)) 0 = [(str ''path'', str ''a'')]"
proof -
  have e: "eventsOf readFileOptions splitPathChunks
       = Some [Block (ToolUseBlock \<lparr>name = str ''read_file'', params = [(str ''path'', str ''a'')], partial = True\<rparr>),
               Block (ToolUseBlock \<lparr>name = str ''read_file'', params = [(str ''path'', str ''ab'')], partial = False\<rparr>)]"
    by code_simp
  have o: "map_option (mapAt 1) (processChunks_run scribbler (newRun readFileOptions) [str ''<read_file><path>a''])
       = Some [(str ''path'', str ''overwritten'')]"
    by code_simp
  have f: "fst (emitPartialAtChunkEnd_ref openPathParser openPathStore)
       = [Block (ToolUseBlock \<lparr>refName = str ''read_file'', refParams = 1, refPartial = True\<rparr>)]"
    by code_simp
  have w: "workingRef (parserContext openPathParser) = Some 0"
    by code_simp
  have a: "\<forall>w. workingRef (parserContext openPathParser) = Some w \<longrightarrow> w < nextRef openPathStore"
    using w by (simp add: openPathStore_def)
  have c0: "objects (snd (emitPartialAtChunkEnd_ref openPathParser openPathStore)) 0 = [(str ''path'', str ''a'')]"
    by code_simp
  from param_map_isolation
         [where k = scribbler and opts = readFileOptions and chunks = splitPathChunks
            and ?p0.0 = openPathParser and ?s0.0 = openPathStore
            and tu = "\<lparr>refName = str ''read_file'', refParams = 1, refPartial = True\<rparr>"]
       scribbler_well a f w
  obtain evs p r
    where h: "processChunks (newStreamingToolParser readFileOptions) splitPathChunks = Some (evs, p)"
      and r: "processChunks_run scribbler (newRun readFileOptions) splitPathChunks = Some r"
        "seen r = evs"
      and c1: "objects (snd (emitPartialAtChunkEnd_ref openPathParser openPathStore)) 1
                 = objects (snd (emitPartialAtChunkEnd_ref openPathParser openPathStore)) 0"
    by auto
  from h e have "evs = [Block (ToolUseBlock \<lparr>name = str ''read_file'', params = [(str ''path'', str ''a'')], partial = True\<rparr>),
               Block (ToolUseBlock \<lparr>name = str ''read_file'', params = [(str ''path'', str ''ab'')], partial = False\<rparr>)]"
    by (simp add: eventsOf_def)
  with r e o f w c0 c1 scribbler_well show ?thesis
    by simp
qed

end
